theory Spec2Isabelle
  imports Main
begin

section \<open>Values, candidates and the three-element arrays of \<open>ui/src/main.jsx\<close>\<close>

text \<open>
  The navigator is the React component \<open>App\<close> of \<open>ui/src/main.jsx\<close>. Its ids are
  JavaScript values: \<open>null\<close> (the initial value of every parent and child id),
  \<open>undefined\<close> (what \<open>items?.[0]?.id\<close> and \<open>nextItem?.id\<close> give on a missing item)
  or a string.
\<close>

datatype jsval = Null | Undefined | Str string

text \<open>
  A list item as the component reads it: \<open>item.id\<close>, \<open>item.name\<close>, \<open>item.detail\<close>
  (line 438), \<open>item.hasChildren\<close> and \<open>item.indirectTypes\<close> (an array, or absent).
\<close>

record candidate =
  id_c :: string
  name :: string
  detail :: string
  hasChildren :: bool
  indirectTypes :: "string list option"

text \<open>
  \<open>filterTexts\<close>, \<open>parentIds\<close>, \<open>childIds\<close> (lines 44-46) and \<open>itemsQueries\<close> are arrays
  of exactly three elements, one per pane. \<open>nth3\<close> is the read \<open>xs[i]\<close> (\<open>None\<close> is
  \<open>undefined\<close>, for an index outside 0..2) and \<open>upd3\<close> the write \<open>draft[i] = v\<close>.
  For an index outside 0..2 JavaScript would grow the array and \<open>upd3\<close> leaves it as it
  is; the only variable index is \<open>parentIndex\<close>, which stays in 0..2 (lemma
  \<open>activePane_in_range\<close>).
\<close>

type_synonym 'a array3 = "'a \<times> 'a \<times> 'a"

fun nth3 :: "'a array3 \<Rightarrow> int \<Rightarrow> 'a option" where
  "nth3 (a, b, c) i =
     (if i = 0 then Some a else if i = 1 then Some b else if i = 2 then Some c else None)"

fun upd3 :: "'a array3 \<Rightarrow> int \<Rightarrow> 'a \<Rightarrow> 'a array3" where
  "upd3 (a, b, c) i v =
     (if i = 0 then (v, b, c) else if i = 1 then (a, v, c) else if i = 2 then (a, b, v)
      else (a, b, c))"

text \<open>The four \<open>useImmer\<close> states of lines 43-46.\<close>

record navigator =
  parentIndex :: int
  filterTexts :: "string array3"
  parentIds :: "jsval array3"
  childIds :: "jsval array3"

definition initialState :: navigator where
  "initialState =
     \<lparr>parentIndex = 0, filterTexts = ('''', '''', ''''),
      parentIds = (Null, Null, Null), childIds = (Null, Null, Null)\<rparr>"

text \<open>
  \<open>itemsQueries[i].data\<close> for the three panes, as one render sees them: \<open>None\<close> is
  \<open>undefined\<close> (nothing fetched yet).
\<close>

type_synonym snapshot = "candidate list option array3"

definition itemCatalogId :: string where
  "itemCatalogId = ''item-catalog''"

section \<open>The three queries (lines 14-22 and 55-84)\<close>

text \<open>
  The query keys of lines 57, 63 and 69: the direct pane's list is keyed by
  \<open>directParentId\<close>, the action pane's by \<open>directChildId\<close> and the indirect pane's by
  \<open>indirectParentId\<close> and \<open>actionChildId\<close>.
\<close>

datatype queryKey =
    DirectChildren jsval
  | ActionChildren jsval
  | IndirectChildren jsval jsval

definition queryKeys :: "navigator \<Rightarrow> queryKey array3" where
  "queryKeys st =
     (case parentIds st of (directParentId', actionParentId', indirectParentId') \<Rightarrow>
      case childIds st of (directChildId', actionChildId', indirectChildId') \<Rightarrow>
        (DirectChildren directParentId', ActionChildren directChildId',
         IndirectChildren indirectParentId' actionChildId'))"

text \<open>
  \<open>useQueries\<close> and the query client belong to the react-query package, which is not
  under \<open>src/\<close>; the model follows the options the source sets. The cache holds the
  lists that have arrived, the latest first; with \<open>staleTime: Infinity\<close> a list that is
  cached is not fetched again. At a render, the data of a query is the list cached
  under its key; with \<open>keepPreviousData: true\<close>, while there is none, it is the data the
  same query had at the render before. No response arrives while a key handler or a
  pass runs: the cache is the same from its first render to its last, and the arrival
  of a list is a pass against the cache with that list added.
\<close>

type_synonym cache = "(queryKey \<times> candidate list) list"

definition queryData :: "cache \<Rightarrow> candidate list option \<Rightarrow> queryKey \<Rightarrow> candidate list option" where
  "queryData c previous k = (case map_of c k of Some d \<Rightarrow> Some d | None \<Rightarrow> previous)"

definition useQueries :: "cache \<Rightarrow> snapshot \<Rightarrow> navigator \<Rightarrow> snapshot" where
  "useQueries c previous st =
     (case queryKeys st of (k0, k1, k2) \<Rightarrow>
      case previous of (p0, p1, p2) \<Rightarrow>
        (queryData c p0 k0, queryData c p1 k1, queryData c p2 k2))"

section \<open>Strings\<close>

text \<open>\<open>toLowerCase\<close> on the ASCII letters, and \<open>s.includes(t)\<close>: \<open>t\<close> occurs in \<open>s\<close>.\<close>

definition lowerChar :: "char \<Rightarrow> char" where
  "lowerChar c =
     (case map_of (zip ''ABCDEFGHIJKLMNOPQRSTUVWXYZ'' ''abcdefghijklmnopqrstuvwxyz'') c of
        None \<Rightarrow> c | Some l \<Rightarrow> l)"

definition toLowerCase :: "string \<Rightarrow> string" where
  "toLowerCase s = map lowerChar s"

definition startsWith :: "string \<Rightarrow> string \<Rightarrow> bool" where
  "startsWith s t = (take (length t) s = t)"

fun includes_s :: "string \<Rightarrow> string \<Rightarrow> bool" where
  "includes_s [] t = (t = [])"
| "includes_s (c # s) t = (startsWith (c # s) t \<or> includes_s s t)"

section \<open>The filter (line 86-90)\<close>

text \<open>
  \<open>item[key]\<close> for the string-valued properties of a candidate; any other key is
  \<open>undefined\<close>.
\<close>

definition getProp :: "candidate \<Rightarrow> string \<Rightarrow> string option" where
  "getProp item k =
     (if k = ''id'' then Some (id_c item)
      else if k = ''name'' then Some (name item)
      else if k = ''detail'' then Some (detail item)
      else None)"

text \<open>
  Modelled from the spec: \<open>matchSorter\<close> of the match-sorter package, which
  \<open>main.jsx\<close> imports and which is not under \<open>src/\<close>. After section 4.1: the empty
  text returns the list unchanged; a non-empty text keeps, in list order, the items of
  which the value of one of the keys matches the text, where matching is the
  case-insensitive substring test; an item on which no key has a value never matches.
  The keys are an argument, as in the call of line 87.
\<close>

definition matchSorter :: "candidate list \<Rightarrow> string \<Rightarrow> string list \<Rightarrow> candidate list" where
  "matchSorter items v keys =
     (if v = [] then items
      else filter (\<lambda>item. list_ex (\<lambda>k. case getProp item k of
                                          None \<Rightarrow> False
                                        | Some s \<Rightarrow> includes_s (toLowerCase s) (toLowerCase v)) keys)
             items)"

definition orEmpty :: "candidate list option \<Rightarrow> candidate list" where
  "orEmpty d = (case d of None \<Rightarrow> [] | Some xs \<Rightarrow> xs)"

definition filteredListItems :: "snapshot \<Rightarrow> string array3 \<Rightarrow> candidate list array3" where
  "filteredListItems itemsQueries texts =
     (case itemsQueries of (q0, q1, q2) \<Rightarrow>
      case texts of (t0, t1, t2) \<Rightarrow>
        (matchSorter (orEmpty q0) t0 [''name'', ''details''],
         matchSorter (orEmpty q1) t1 [''name'', ''details''],
         matchSorter (orEmpty q2) t2 [''name'', ''details'']))"

section \<open>One render and its layout effects (lines 92-168)\<close>

text \<open>\<open>items?.[0]?.id\<close> (line 131) and the truthiness test of \<open>if (first...Id)\<close>.\<close>

definition firstId :: "candidate list \<Rightarrow> jsval" where
  "firstId items = (case items of [] \<Rightarrow> Undefined | item # _ \<Rightarrow> Str (id_c item))"

definition truthy :: "jsval \<Rightarrow> bool" where
  "truthy v = (case v of Str s \<Rightarrow> s \<noteq> [] | _ \<Rightarrow> False)"

text \<open>
  The values a render computes: the data of the three queries, and the values the
  dependency arrays of the seven state-changing layout effects mention. React keeps
  them from one render to the next and runs an effect when one of its dependencies
  differs from the previous render's, and always after the first render.
\<close>

record rendered =
  queriesData :: snapshot
  directParentId :: jsval
  indirectParentId :: jsval
  directChildId :: jsval
  actionChildId :: jsval
  firstDirectChildListItemId :: jsval
  firstActionChildListItemId :: jsval
  firstIndirectChildListItemId :: jsval

text \<open>The data of the render before; there is none before the first render.\<close>

definition shown :: "rendered option \<Rightarrow> snapshot" where
  "shown prev = (case prev of None \<Rightarrow> (None, None, None) | Some p \<Rightarrow> queriesData p)"

definition render :: "cache \<Rightarrow> rendered option \<Rightarrow> navigator \<Rightarrow> rendered" where
  "render c prev st =
     (let itemsQueries = useQueries c (shown prev) st in
      case parentIds st of (dp, ap, ip) \<Rightarrow>
      case childIds st of (dc, ac, ic) \<Rightarrow>
      case filteredListItems itemsQueries (filterTexts st) of (l0, l1, l2) \<Rightarrow>
        \<lparr>queriesData = itemsQueries,
         directParentId = dp, indirectParentId = ip,
         directChildId = dc, actionChildId = ac,
         firstDirectChildListItemId = firstId l0,
         firstActionChildListItemId = firstId l1,
         firstIndirectChildListItemId = firstId l2\<rparr>)"

definition changed :: "rendered option \<Rightarrow> rendered \<Rightarrow> (rendered \<Rightarrow> jsval) \<Rightarrow> bool" where
  "changed prev cur dep = (case prev of None \<Rightarrow> True | Some p \<Rightarrow> dep p \<noteq> dep cur)"

definition setFilterText :: "int \<Rightarrow> string \<Rightarrow> navigator \<Rightarrow> navigator" where
  "setFilterText i t st = st\<lparr>filterTexts := upd3 (filterTexts st) i t\<rparr>"

definition setChildId :: "int \<Rightarrow> jsval \<Rightarrow> navigator \<Rightarrow> navigator" where
  "setChildId i v st = st\<lparr>childIds := upd3 (childIds st) i v\<rparr>"

definition setParentId :: "int \<Rightarrow> jsval \<Rightarrow> navigator \<Rightarrow> navigator" where
  "setParentId i v st = st\<lparr>parentIds := upd3 (parentIds st) i v\<rparr>"

text \<open>Lines 94-98, 102-106, 112-116 and 118-122: the four filter resets.\<close>

definition effectDirectParent :: "rendered option \<Rightarrow> rendered \<Rightarrow> navigator \<Rightarrow> navigator" where
  "effectDirectParent prev cur st =
     (if changed prev cur directParentId then setFilterText 0 '''' st else st)"

definition effectIndirectParent :: "rendered option \<Rightarrow> rendered \<Rightarrow> navigator \<Rightarrow> navigator" where
  "effectIndirectParent prev cur st =
     (if changed prev cur indirectParentId then setFilterText 2 '''' st else st)"

definition effectDirectChild :: "rendered option \<Rightarrow> rendered \<Rightarrow> navigator \<Rightarrow> navigator" where
  "effectDirectChild prev cur st =
     (if changed prev cur directChildId then setFilterText 1 '''' st else st)"

definition effectActionChild :: "rendered option \<Rightarrow> rendered \<Rightarrow> navigator \<Rightarrow> navigator" where
  "effectActionChild prev cur st =
     (if changed prev cur actionChildId then setFilterText 2 '''' st else st)"

text \<open>Lines 134-140, 143-154 and 157-168: the three auto-selections.\<close>

definition effectSelectDirect :: "rendered option \<Rightarrow> rendered \<Rightarrow> navigator \<Rightarrow> navigator" where
  "effectSelectDirect prev cur st =
     (if changed prev cur firstDirectChildListItemId then
        (if truthy (firstDirectChildListItemId cur)
         then setChildId 0 (firstDirectChildListItemId cur) st else st)
      else st)"

definition effectSelectAction :: "rendered option \<Rightarrow> rendered \<Rightarrow> navigator \<Rightarrow> navigator" where
  "effectSelectAction prev cur st =
     (if changed prev cur firstActionChildListItemId
         \<or> changed prev cur firstDirectChildListItemId
         \<or> changed prev cur directChildId then
        (if truthy (firstActionChildListItemId cur)
         then setChildId 1 (firstActionChildListItemId cur) st else st)
      else st)"

definition effectSelectIndirect :: "rendered option \<Rightarrow> rendered \<Rightarrow> navigator \<Rightarrow> navigator" where
  "effectSelectIndirect prev cur st =
     (if changed prev cur firstIndirectChildListItemId
         \<or> changed prev cur firstDirectChildListItemId
         \<or> changed prev cur actionChildId then
        (if truthy (firstIndirectChildListItemId cur)
         then setChildId 2 (firstIndirectChildListItemId cur) st else st)
      else st)"

text \<open>
  The layout effects of one commit, in source order. Each updater is a function of the
  latest draft and writes a value its effect closed over at render time. The other
  layout effects (the key listener of lines 174-312 and the two resizes of lines
  314-326) set no state.
\<close>

definition layoutEffects :: "rendered option \<Rightarrow> rendered \<Rightarrow> navigator \<Rightarrow> navigator" where
  "layoutEffects prev cur st =
     effectSelectIndirect prev cur
       (effectSelectAction prev cur
         (effectSelectDirect prev cur
           (effectActionChild prev cur
             (effectDirectChild prev cur
               (effectIndirectParent prev cur
                 (effectDirectParent prev cur st))))))"

section \<open>The pass: render and effects until nothing changes\<close>

definition nonEmptyCount :: "string array3 \<Rightarrow> nat" where
  "nonEmptyCount ts =
     (case ts of (a, b, c) \<Rightarrow>
        (if a = [] then 0 else 1) + (if b = [] then 0 else 1) + (if c = [] then 0 else 1))"

definition pending :: "rendered option \<Rightarrow> rendered \<Rightarrow> nat" where
  "pending prev cur =
     (case prev of
        None \<Rightarrow> 4
      | Some p \<Rightarrow>
          if directParentId p \<noteq> directParentId cur
             \<or> indirectParentId p \<noteq> indirectParentId cur
             \<or> firstDirectChildListItemId p \<noteq> firstDirectChildListItemId cur
          then 4
          else if directChildId p \<noteq> directChildId cur then 3
          else if firstActionChildListItemId p \<noteq> firstActionChildListItemId cur then 2
          else if actionChildId p \<noteq> actionChildId cur
                  \<or> firstIndirectChildListItemId p \<noteq> firstIndirectChildListItemId cur
          then 1
          else 0)"

text \<open>
  A state update made by a layout effect renders the component again, synchronously,
  and the effects of that render run against the values of the one before. A render
  reads the queries anew: when the effects have changed a selection, the pane after it
  has another query key, and the list cached under it is on display at once. This goes
  on until a commit changes no state. The state of the pass is the navigator and the
  values of the last render (\<open>None\<close> before the first).
\<close>

function pass :: "cache \<Rightarrow> navigator \<times> rendered option \<Rightarrow> navigator \<times> rendered option" where
  "pass c (st, prev) =
     (let cur = render c prev st;
          st' = layoutEffects prev cur st
      in if st' = st then (st, Some cur) else pass c (st', Some cur))"
  by pat_completeness auto

text \<open>What one commit does to each component of the state.\<close>

lemmas effect_defs =
  effectDirectParent_def effectIndirectParent_def effectDirectChild_def
  effectActionChild_def effectSelectDirect_def effectSelectAction_def
  effectSelectIndirect_def setFilterText_def setChildId_def

lemma layoutEffects_parentIds [simp]:
  "parentIds (layoutEffects prev cur st) = parentIds st"
  by (simp add: layoutEffects_def effect_defs)

lemma layoutEffects_parentIndex [simp]:
  "parentIndex (layoutEffects prev cur st) = parentIndex st"
  by (simp add: layoutEffects_def effect_defs)

lemma layoutEffects_filterTexts:
  "filterTexts (layoutEffects prev cur st) =
     (case filterTexts st of (a, b, c) \<Rightarrow>
        (if changed prev cur directParentId then '''' else a,
         if changed prev cur directChildId then '''' else b,
         if changed prev cur indirectParentId \<or> changed prev cur actionChildId
         then '''' else c))"
  by (cases "filterTexts st") (simp add: layoutEffects_def effect_defs)

lemma layoutEffects_childIds:
  "childIds (layoutEffects prev cur st) =
     (case childIds st of (a, b, c) \<Rightarrow>
        (if changed prev cur firstDirectChildListItemId
            \<and> truthy (firstDirectChildListItemId cur)
         then firstDirectChildListItemId cur else a,
         if (changed prev cur firstActionChildListItemId
             \<or> changed prev cur firstDirectChildListItemId
             \<or> changed prev cur directChildId)
            \<and> truthy (firstActionChildListItemId cur)
         then firstActionChildListItemId cur else b,
         if (changed prev cur firstIndirectChildListItemId
             \<or> changed prev cur firstDirectChildListItemId
             \<or> changed prev cur actionChildId)
            \<and> truthy (firstIndirectChildListItemId cur)
         then firstIndirectChildListItemId cur else c))"
  by (cases "childIds st") (simp add: layoutEffects_def effect_defs)

lemma navigator_eqI:
  "parentIndex a = parentIndex b \<Longrightarrow> filterTexts a = filterTexts b \<Longrightarrow>
   parentIds a = parentIds b \<Longrightarrow> childIds a = childIds b \<Longrightarrow> (a::navigator) = b"
  by simp

text \<open>The components of the filtered lists, of the queries and of a render.\<close>

lemma filteredListItems_parts:
  "fst (filteredListItems qs ts) = matchSorter (orEmpty (fst qs)) (fst ts) [''name'', ''details'']"
  "fst (snd (filteredListItems qs ts))
     = matchSorter (orEmpty (fst (snd qs))) (fst (snd ts)) [''name'', ''details'']"
  "snd (snd (filteredListItems qs ts))
     = matchSorter (orEmpty (snd (snd qs))) (snd (snd ts)) [''name'', ''details'']"
  by (cases qs; cases ts; simp add: filteredListItems_def)+

lemma useQueries_parts:
  "fst (useQueries c p st) = queryData c (fst p) (DirectChildren (fst (parentIds st)))"
  "fst (snd (useQueries c p st)) = queryData c (fst (snd p)) (ActionChildren (fst (childIds st)))"
  "snd (snd (useQueries c p st))
     = queryData c (snd (snd p))
         (IndirectChildren (snd (snd (parentIds st))) (fst (snd (childIds st))))"
  by (cases p; cases "parentIds st"; cases "childIds st";
      simp add: useQueries_def queryKeys_def)+

lemma queryData_again [simp]: "queryData c (queryData c p k) k = queryData c p k"
  by (simp add: queryData_def split: option.splits)

lemma render_fields:
  "queriesData (render c prev st) = useQueries c (shown prev) st"
  "directParentId (render c prev st) = fst (parentIds st)"
  "indirectParentId (render c prev st) = snd (snd (parentIds st))"
  "directChildId (render c prev st) = fst (childIds st)"
  "actionChildId (render c prev st) = fst (snd (childIds st))"
  "firstDirectChildListItemId (render c prev st) =
     firstId (fst (filteredListItems (useQueries c (shown prev) st) (filterTexts st)))"
  "firstActionChildListItemId (render c prev st) =
     firstId (fst (snd (filteredListItems (useQueries c (shown prev) st) (filterTexts st))))"
  "firstIndirectChildListItemId (render c prev st) =
     firstId (snd (snd (filteredListItems (useQueries c (shown prev) st) (filterTexts st))))"
  by (simp_all add: render_def Let_def split: prod.splits)

lemma shown_Some [simp]: "shown (Some r) = queriesData r"
  by (simp add: shown_def)

text \<open>
  From one render to the next, the first id of a pane stays when its filter text and
  its query key stay: the direct pane's with the direct parent, the action pane's with
  the direct selection, the indirect pane's with the indirect parent and the action
  selection.
\<close>

lemma next_first_direct:
  assumes "fst (parentIds st') = fst (parentIds st)"
    and "fst (filterTexts st') = fst (filterTexts st)"
  shows "firstDirectChildListItemId (render c (Some (render c prev st)) st')
           = firstDirectChildListItemId (render c prev st)"
  using assms by (simp add: render_fields filteredListItems_parts useQueries_parts)

lemma next_first_action:
  assumes "fst (childIds st') = fst (childIds st)"
    and "fst (snd (filterTexts st')) = fst (snd (filterTexts st))"
  shows "firstActionChildListItemId (render c (Some (render c prev st)) st')
           = firstActionChildListItemId (render c prev st)"
  using assms by (simp add: render_fields filteredListItems_parts useQueries_parts)

lemma next_first_indirect:
  assumes "snd (snd (parentIds st')) = snd (snd (parentIds st))"
    and "fst (snd (childIds st')) = fst (snd (childIds st))"
    and "snd (snd (filterTexts st')) = snd (snd (filterTexts st))"
  shows "firstIndirectChildListItemId (render c (Some (render c prev st)) st')
           = firstIndirectChildListItemId (render c prev st)"
  using assms by (simp add: render_fields filteredListItems_parts useQueries_parts)

text \<open>
  The pass ends. The effects only ever empty a filter text. While the texts stay as
  they are, a change runs down the panes and never up: the first id of the direct pane
  stays, so the direct selection changes once at most; then the action pane's list and
  first id stay, and the action selection changes once at most; then the indirect
  pane's.
\<close>

lemma nonEmptyCount_layoutEffects_less:
  "filterTexts (layoutEffects prev cur st) \<noteq> filterTexts st \<Longrightarrow>
   nonEmptyCount (filterTexts (layoutEffects prev cur st)) < nonEmptyCount (filterTexts st)"
  by (cases "filterTexts st")
    (auto simp add: layoutEffects_filterTexts nonEmptyCount_def split: if_splits)

lemma pending_le: "pending prev cur \<le> 4"
  by (simp add: pending_def split: option.splits)

lemma pending_direct:
  "changed prev cur firstDirectChildListItemId \<Longrightarrow> pending prev cur = 4"
  by (cases prev) (simp_all add: pending_def changed_def)

lemma pending_action:
  "changed prev cur firstActionChildListItemId
   \<or> changed prev cur firstDirectChildListItemId
   \<or> changed prev cur directChildId \<Longrightarrow> 2 \<le> pending prev cur"
  by (cases prev) (auto simp add: pending_def changed_def)

lemma pending_indirect:
  "changed prev cur firstIndirectChildListItemId
   \<or> changed prev cur firstDirectChildListItemId
   \<or> changed prev cur actionChildId \<Longrightarrow> 1 \<le> pending prev cur"
  by (cases prev) (auto simp add: pending_def changed_def)

lemma pending_same_texts:
  assumes texts: "filterTexts (layoutEffects prev (render c prev st) st) = filterTexts st"
    and moved: "layoutEffects prev (render c prev st) st \<noteq> st"
  shows "pending (Some (render c prev st))
           (render c (Some (render c prev st)) (layoutEffects prev (render c prev st) st))
         < pending prev (render c prev st)"
proof -
  let ?cur = "render c prev st"
  let ?st' = "layoutEffects prev ?cur st"
  let ?nxt = "render c (Some ?cur) ?st'"
  have f0: "firstDirectChildListItemId ?nxt = firstDirectChildListItemId ?cur"
    by (rule next_first_direct) (simp_all add: texts)
  have f1: "fst (childIds ?st') = fst (childIds st) \<Longrightarrow>
            firstActionChildListItemId ?nxt = firstActionChildListItemId ?cur"
    by (rule next_first_action) (simp_all add: texts)
  have f2: "fst (snd (childIds ?st')) = fst (snd (childIds st)) \<Longrightarrow>
            firstIndirectChildListItemId ?nxt = firstIndirectChildListItemId ?cur"
    by (rule next_first_indirect) (simp_all add: texts)
  have p: "directParentId ?nxt = directParentId ?cur"
    "indirectParentId ?nxt = indirectParentId ?cur"
    "directChildId ?nxt = fst (childIds ?st')" "directChildId ?cur = fst (childIds st)"
    "actionChildId ?nxt = fst (snd (childIds ?st'))" "actionChildId ?cur = fst (snd (childIds st))"
    by (simp_all add: render_fields)
  have le3: "pending (Some ?cur) ?nxt \<le> 3"
    by (simp add: pending_def f0 p(1,2))
  have le1: "pending (Some ?cur) ?nxt \<le> 1" if "fst (childIds ?st') = fst (childIds st)"
    using that f1 [OF that] by (simp add: pending_def f0 p)
  have eq0: "pending (Some ?cur) ?nxt = 0"
    if "fst (childIds ?st') = fst (childIds st)"
      and "fst (snd (childIds ?st')) = fst (snd (childIds st))"
    using that f1 [OF that(1)] f2 [OF that(2)] by (simp add: pending_def f0 p)
  from moved texts have ch: "childIds ?st' \<noteq> childIds st"
    by (auto intro: navigator_eqI)
  show ?thesis
  proof (cases "fst (childIds ?st') = fst (childIds st)")
    case False
    then have "changed prev ?cur firstDirectChildListItemId"
      by (cases "childIds st") (auto simp add: layoutEffects_childIds split: if_splits)
    then have "pending prev ?cur = 4" by (rule pending_direct)
    with le3 show ?thesis by simp
  next
    case c0: True
    show ?thesis
    proof (cases "fst (snd (childIds ?st')) = fst (snd (childIds st))")
      case False
      then have "changed prev ?cur firstActionChildListItemId
                 \<or> changed prev ?cur firstDirectChildListItemId
                 \<or> changed prev ?cur directChildId"
        by (cases "childIds st") (auto simp add: layoutEffects_childIds split: if_splits)
      then have "2 \<le> pending prev ?cur" by (rule pending_action)
      with le1 [OF c0] show ?thesis by simp
    next
      case c1: True
      from ch c0 c1 have "snd (snd (childIds ?st')) \<noteq> snd (snd (childIds st))"
        by (cases "childIds ?st'"; cases "childIds st") auto
      then have "changed prev ?cur firstIndirectChildListItemId
                 \<or> changed prev ?cur firstDirectChildListItemId
                 \<or> changed prev ?cur actionChildId"
        by (cases "childIds st") (auto simp add: layoutEffects_childIds split: if_splits)
      then have "1 \<le> pending prev ?cur" by (rule pending_indirect)
      with eq0 [OF c0 c1] show ?thesis by simp
    qed
  qed
qed

lemma pass_measure:
  assumes "layoutEffects prev (render c prev st) st \<noteq> st"
  shows "5 * nonEmptyCount (filterTexts (layoutEffects prev (render c prev st) st))
           + pending (Some (render c prev st))
               (render c (Some (render c prev st)) (layoutEffects prev (render c prev st) st))
         < 5 * nonEmptyCount (filterTexts st) + pending prev (render c prev st)"
proof (cases "filterTexts (layoutEffects prev (render c prev st) st) = filterTexts st")
  case True
  with assms show ?thesis using pending_same_texts [of prev c st] by simp
next
  case False
  then have "nonEmptyCount (filterTexts (layoutEffects prev (render c prev st) st))
               < nonEmptyCount (filterTexts st)"
    by (rule nonEmptyCount_layoutEffects_less)
  moreover have
    "pending (Some (render c prev st))
       (render c (Some (render c prev st)) (layoutEffects prev (render c prev st) st)) \<le> 4"
    by (rule pending_le)
  ultimately show ?thesis by linarith
qed

termination pass
  by (relation "measure (\<lambda>(c, st, prev).
        5 * nonEmptyCount (filterTexts st) + pending prev (render c prev st))")
    (auto simp add: pass_measure)

declare pass.simps [simp del]

lemma pass_stop:
  "layoutEffects prev (render c prev st) st = st \<Longrightarrow>
   pass c (st, prev) = (st, Some (render c prev st))"
  by (subst pass.simps) (simp add: Let_def)

lemma pass_step:
  "layoutEffects prev (render c prev st) st \<noteq> st \<Longrightarrow>
   pass c (st, prev) = pass c (layoutEffects prev (render c prev st) st, Some (render c prev st))"
  by (subst pass.simps) (simp add: Let_def)

text \<open>Induction along the commits of one pass, for a fixed cache.\<close>

lemma pass_cases_induct [case_names stop step]:
  assumes stop: "\<And>st prev. layoutEffects prev (render c prev st) st = st \<Longrightarrow> P (st, prev)"
    and step: "\<And>st prev. layoutEffects prev (render c prev st) st \<noteq> st \<Longrightarrow>
                 P (layoutEffects prev (render c prev st) st, Some (render c prev st))
                 \<Longrightarrow> P (st, prev)"
  shows "P x"
proof -
  have "q = c \<longrightarrow> P x" for q
  proof (induction q x rule: pass.induct)
    case (1 q st prev)
    show ?case
    proof
      assume q: "q = c"
      show "P (st, prev)"
      proof (cases "layoutEffects prev (render c prev st) st = st")
        case True
        then show ?thesis by (rule stop)
      next
        case False
        then show ?thesis using "1.IH" [OF refl refl] q by (auto intro: step)
      qed
    qed
  qed
  then show ?thesis by simp
qed

text \<open>
  A transitive relation that holds from the state before a commit to the state after
  it holds across the whole pass.
\<close>

lemma pass_relates:
  assumes trn: "\<And>a b d. R a b \<Longrightarrow> R b d \<Longrightarrow> R a d"
    and eff: "\<And>st prev.
                R (st, prev) (layoutEffects prev (render c prev st) st, Some (render c prev st))"
  shows "R x (pass c x)"
proof (induction x rule: pass_cases_induct [where c = c])
  case (stop st prev)
  then show ?case using eff [of st prev] by (simp add: pass_stop)
next
  case (step st prev)
  then show ?case using trn [OF eff [of st prev]] by (simp add: pass_step)
qed

lemma pass_parentIndex: "parentIndex (fst (pass c x)) = parentIndex (fst x)"
  using pass_relates
    [where R = "\<lambda>a b. parentIndex (fst b) = parentIndex (fst a)" and c = c and x = x]
  by simp

lemma pass_parentIds: "parentIds (fst (pass c x)) = parentIds (fst x)"
  using pass_relates
    [where R = "\<lambda>a b. parentIds (fst b) = parentIds (fst a)" and c = c and x = x]
  by simp

lemma changed_same [simp]: "changed (Some cur) cur dep = False"
  by (simp add: changed_def)

lemma layoutEffects_same [simp]: "layoutEffects (Some cur) cur st = st"
  by (simp add: layoutEffects_def effect_defs)

text \<open>
  A render of the same state against the values of the render before gives the same
  values: the queries have the keys they had, and keep their data.
\<close>

lemma useQueries_again [simp]: "useQueries c (useQueries c p st) st = useQueries c p st"
  by (cases p; cases "parentIds st"; cases "childIds st")
    (simp add: useQueries_def queryKeys_def)

lemma render_again [simp]: "render c (Some (render c prev st)) st = render c prev st"
  by (simp add: render_def Let_def render_fields split: prod.splits)

text \<open>
  The pass ends in a state that its last render has rendered, and leaves such a state
  as it is.
\<close>

lemma pass_rendered: "\<exists>prev. snd (pass c x) = Some (render c prev (fst (pass c x)))"
proof (induction x rule: pass_cases_induct [where c = c])
  case (stop st prev)
  then show ?case by (auto simp add: pass_stop)
next
  case (step st prev)
  then show ?case by (simp add: pass_step)
qed

lemma pass_settled: "pass c (st, Some (render c prev st)) = (st, Some (render c prev st))"
  using pass_stop [of "Some (render c prev st)" c st] by simp

section \<open>The key handler (lines 170-293)\<close>

record keyEvent =
  key :: string
  shiftKey :: bool
  metaKey :: bool
  ctrlKey :: bool
  altKey :: bool

text \<open>
  \<open>api\<close> (lines 24-37). \<open>fetch\<close> rejects or gives a response; \<open>response.json()\<close>
  rejects on a body that is not JSON (\<open>None\<close>); a response that is not \<open>ok\<close> throws
  an error carrying \<open>json.error\<close> and \<open>json.itemId\<close>.
\<close>

datatype error = TypeError | FetchRejected | JsonRejected | ApiError jsval jsval

type_synonym json = "(string \<times> jsval) list"

definition field :: "json \<Rightarrow> string \<Rightarrow> jsval" where
  "field j k = (case map_of j k of None \<Rightarrow> Undefined | Some v \<Rightarrow> v)"

datatype fetched = Rejected | Response bool "json option"

definition api :: "fetched \<Rightarrow> error + json" where
  "api r =
     (case r of
        Rejected \<Rightarrow> Inl FetchRejected
      | Response ok body \<Rightarrow>
          (case body of
             None \<Rightarrow> Inl JsonRejected
           | Some j \<Rightarrow>
               if \<not> ok then Inl (ApiError (field j ''error'') (field j ''itemId''))
               else Inr j))"

text \<open>
  Modelled from the spec: \<open>wrapAround\<close> of \<open>server/utils\<close>, imported at line 10 and
  not under \<open>src/\<close>. After section 4.5: \<open>(index + direction) mod count\<close>, wrapping at
  both ends, so the result lies in \<open>0..bounds-1\<close> for a positive \<open>bounds\<close>.
\<close>

definition wrapAround :: "int \<Rightarrow> int \<Rightarrow> int" where
  "wrapAround n bounds = n mod bounds"

text \<open>Lines 170-172.\<close>

definition shouldShowIndirect :: "snapshot \<Rightarrow> navigator \<Rightarrow> bool" where
  "shouldShowIndirect itemsQueries st =
     (case itemsQueries of (q0, q1, q2) \<Rightarrow>
      case childIds st of (dc, ac, ic) \<Rightarrow>
        (case q1 of
           None \<Rightarrow> False
         | Some items \<Rightarrow>
             (case find (\<lambda>item. Str (id_c item) = ac) items of
                None \<Rightarrow> False
              | Some item \<Rightarrow>
                  (case indirectTypes item of None \<Rightarrow> False | Some ts \<Rightarrow> 0 < length ts))))"

text \<open>What a key press sends out: the two \<open>api\<close> calls and \<open>window.app?.hide()\<close>.\<close>

datatype outbound =
    GetItem string
  | ExecuteCommand jsval jsval jsval
  | HideWindow

text \<open>
  The result of one key press: the navigator (with the values of its last render),
  whether \<open>event.preventDefault()\<close> was called, what was sent, and the exception the
  handler ended with, if any.
\<close>

record outcome =
  after :: "navigator \<times> rendered option"
  defaultPrevented :: bool
  sent :: "outbound list"
  thrown :: "error option"

text \<open>
  A state setter called from the handler. The component is mounted by
  \<open>ReactDOM.render\<close> (line 468), a legacy root, and the handler is a listener on
  \<open>document\<close>, outside React's own event handling: React does not batch such updates
  and renders at once, layout effects included, before the setter returns, unless the
  updater left the state as it was. That render reads the queries anew, like every
  render of the pass.
\<close>

definition dispatch ::
  "cache \<Rightarrow> (navigator \<Rightarrow> navigator) \<Rightarrow> navigator \<times> rendered option
     \<Rightarrow> navigator \<times> rendered option" where
  "dispatch c f x = (if f (fst x) = fst x then x else pass c (f (fst x), snd x))"

definition nthInt :: "'a list \<Rightarrow> int \<Rightarrow> 'a option" where
  "nthInt xs i = (if 0 \<le> i \<and> i < int (length xs) then Some (xs ! nat i) else None)"

fun findIndex :: "('a \<Rightarrow> bool) \<Rightarrow> 'a list \<Rightarrow> int" where
  "findIndex P [] = - 1"
| "findIndex P (x # xs) =
     (if P x then 0 else (let i = findIndex P xs in if i < 0 then - 1 else i + 1))"

definition selectedChildId :: "navigator \<Rightarrow> jsval" where
  "selectedChildId st =
     (case nth3 (childIds st) (parentIndex st) of None \<Rightarrow> Undefined | Some v \<Rightarrow> v)"

definition appendFilterText :: "int \<Rightarrow> string \<Rightarrow> navigator \<Rightarrow> navigator" where
  "appendFilterText i t st =
     (case nth3 (filterTexts st) i of
        None \<Rightarrow> st
      | Some old \<Rightarrow> setFilterText i (old @ t) st)"

definition ignored :: "navigator \<times> rendered option \<Rightarrow> outcome" where
  "ignored x = \<lparr>after = x, defaultPrevented = False, sent = [], thrown = None\<rparr>"

definition consumed :: "navigator \<times> rendered option \<Rightarrow> outcome" where
  "consumed x = \<lparr>after = x, defaultPrevented = True, sent = [], thrown = None\<rparr>"

definition failed :: "error \<Rightarrow> outbound list \<Rightarrow> navigator \<times> rendered option \<Rightarrow> outcome" where
  "failed e out x = \<lparr>after = x, defaultPrevented = True, sent = out, thrown = Some e\<rparr>"

text \<open>Lines 177-185.\<close>

definition onTab :: "cache \<Rightarrow> snapshot \<Rightarrow> keyEvent \<Rightarrow> navigator \<times> rendered option \<Rightarrow> outcome" where
  "onTab c itemsQueries ev x =
     (let bounds = (if shouldShowIndirect itemsQueries (fst x) then 3 else 2);
          direction = (if shiftKey ev then - 1 else 1)
      in consumed (dispatch c
           (\<lambda>s. s\<lparr>parentIndex := wrapAround (parentIndex s + direction) bounds\<rparr>) x))"

text \<open>
  Lines 187-201. \<open>find\<close> gives \<open>undefined\<close> when no item of the filtered list has the
  selected id, and \<open>item.hasChildren\<close> then throws a TypeError.
\<close>

definition onArrowRight :: "cache \<Rightarrow> snapshot \<Rightarrow> navigator \<times> rendered option \<Rightarrow> outcome" where
  "onArrowRight c itemsQueries x =
     (let st = fst x in
      case nth3 (filteredListItems itemsQueries (filterTexts st)) (parentIndex st) of
        None \<Rightarrow> failed TypeError [] x
      | Some items \<Rightarrow>
          (case find (\<lambda>item. Str (id_c item) = selectedChildId st) items of
             None \<Rightarrow> failed TypeError [] x
           | Some item \<Rightarrow>
               if hasChildren item
               then consumed (dispatch c
                      (setParentId (parentIndex st) (selectedChildId st)) x)
               else consumed x))"

text \<open>
  Lines 203-220. \<open>resp\<close> is the answer to the request for the item; the handler goes
  on from it against the state the key was pressed in.
\<close>

definition itemUrl :: "jsval \<Rightarrow> string" where
  "itemUrl parentId =
     ''/items/'' @ (case parentId of Str s \<Rightarrow> (if s = [] then itemCatalogId else s)
                                   | _ \<Rightarrow> itemCatalogId)"

definition onArrowLeft ::
  "cache \<Rightarrow> fetched \<Rightarrow> navigator \<times> rendered option \<Rightarrow> outcome" where
  "onArrowLeft c resp x =
     (let st = fst x;
          parentId = (case nth3 (parentIds st) (parentIndex st) of
                        None \<Rightarrow> Undefined | Some v \<Rightarrow> v)
      in if parentId = Null then consumed x
         else
           (case api resp of
              Inl e \<Rightarrow> failed e [GetItem (itemUrl parentId)] x
            | Inr j \<Rightarrow>
                (let itemParentId = field j ''parentId'' in
                 (consumed (dispatch c
                    (setParentId (parentIndex st)
                       (if itemParentId = Str itemCatalogId then Null else itemParentId)) x))
                 \<lparr>sent := [GetItem (itemUrl parentId)]\<rparr>)))"

text \<open>Lines 222-241.\<close>

definition onArrowUpDown ::
  "cache \<Rightarrow> snapshot \<Rightarrow> keyEvent \<Rightarrow> navigator \<times> rendered option \<Rightarrow> outcome" where
  "onArrowUpDown c itemsQueries ev x =
     (let st = fst x;
          direction = (if key ev = ''ArrowUp'' then - 1 else 1)
      in case nth3 (filteredListItems itemsQueries (filterTexts st)) (parentIndex st) of
           None \<Rightarrow> failed TypeError [] x
         | Some items \<Rightarrow>
             (let currentIndex = findIndex (\<lambda>item. Str (id_c item) = selectedChildId st) items;
                  nextIndex = wrapAround (currentIndex + direction) (int (length items));
                  nextItem = nthInt items nextIndex
              in consumed (dispatch c
                   (setChildId (parentIndex st)
                      (case nextItem of None \<Rightarrow> Undefined | Some item \<Rightarrow> Str (id_c item))) x)))"

text \<open>
  Lines 243-261. \<open>app\<close> says whether \<open>window.app\<close> is there; \<open>resp\<close> is the answer to
  the execute request. When \<open>api\<close> throws, the handler ends there.
\<close>

definition onEnter :: "bool \<Rightarrow> fetched \<Rightarrow> navigator \<times> rendered option \<Rightarrow> outcome" where
  "onEnter app resp x =
     (case childIds (fst x) of (directId, actionId, indirectId) \<Rightarrow>
        (case api resp of
           Inl e \<Rightarrow> failed e [ExecuteCommand directId actionId indirectId] x
         | Inr j \<Rightarrow>
             (consumed x)
             \<lparr>sent := ExecuteCommand directId actionId indirectId
                        # (if app then [HideWindow] else [])\<rparr>))"

text \<open>Lines 263-269.\<close>

definition onBackspace :: "cache \<Rightarrow> navigator \<times> rendered option \<Rightarrow> outcome" where
  "onBackspace c x =
     consumed (dispatch c (setFilterText (parentIndex (fst x)) '''') x)"

text \<open>Lines 271-289. The two setters are called one after the other.\<close>

definition onOtherKey :: "cache \<Rightarrow> keyEvent \<Rightarrow> navigator \<times> rendered option \<Rightarrow> outcome" where
  "onOtherKey c ev x =
     (if metaKey ev \<or> ctrlKey ev \<or> altKey ev then ignored x
      else if includes_s ''abcdefghijklmnopqrstuvwxyz1234567890'' (toLowerCase (key ev))
      then consumed
             (dispatch c
                (appendFilterText (parentIndex (fst x)) (toLowerCase (key ev)))
                (dispatch c
                   (setParentId (parentIndex (fst x)) (Str itemCatalogId)) x))
      else ignored x)"

text \<open>
  The listener of the last render: the lists it closed over are the data of that
  render.
\<close>

definition keydown ::
  "bool \<Rightarrow> cache \<Rightarrow> fetched \<Rightarrow> keyEvent \<Rightarrow> navigator \<times> rendered option \<Rightarrow> outcome" where
  "keydown app c resp ev x =
     (let itemsQueries = shown (snd x) in
      if key ev = ''Tab'' then onTab c itemsQueries ev x
      else if key ev = ''ArrowRight'' then onArrowRight c itemsQueries x
      else if key ev = ''ArrowLeft'' then onArrowLeft c resp x
      else if key ev = ''ArrowUp'' \<or> key ev = ''ArrowDown''
      then onArrowUpDown c itemsQueries ev x
      else if key ev = ''Enter'' then onEnter app resp x
      else if key ev = ''Backspace'' then onBackspace c x
      else onOtherKey c ev x)"

section \<open>The click handlers (lines 346 and 400-404)\<close>

text \<open>
  A click on a pane makes it the active one; the indirect pane is on display only
  while \<open>shouldShowIndirect\<close> holds (lines 337-339). A click on a row selects it: the
  rows are the items of the active pane's filtered list (line 392), \<open>k\<close> is the row.
\<close>

definition clickPane ::
  "cache \<Rightarrow> int \<Rightarrow> navigator \<times> rendered option \<Rightarrow> navigator \<times> rendered option" where
  "clickPane c itemIndex x =
     (if itemIndex = 0 \<or> itemIndex = 1
         \<or> (itemIndex = 2 \<and> shouldShowIndirect (shown (snd x)) (fst x))
      then dispatch c (\<lambda>s. s\<lparr>parentIndex := itemIndex\<rparr>) x
      else x)"

definition clickItem ::
  "cache \<Rightarrow> int \<Rightarrow> navigator \<times> rendered option \<Rightarrow> navigator \<times> rendered option" where
  "clickItem c k x =
     (let st = fst x in
      case nth3 (filteredListItems (shown (snd x)) (filterTexts st)) (parentIndex st) of
        None \<Rightarrow> x
      | Some items \<Rightarrow>
          (case nthInt items k of
             None \<Rightarrow> x
           | Some item \<Rightarrow>
               dispatch c (setChildId (parentIndex st) (Str (id_c item))) x))"

section \<open>The active pane stays one of the three\<close>

text \<open>
  \<open>parentIndex\<close> is written by Tab and by a click on a pane only, and stays in 0..2,
  where \<open>upd3\<close> is the write of the source.
\<close>

lemma dispatch_parentIndex:
  "parentIndex (fst (dispatch c f x)) = (if f (fst x) = fst x then parentIndex (fst x) else parentIndex (f (fst x)))"
  by (simp add: dispatch_def pass_parentIndex)

lemma wrapAround_range: "b = 2 \<or> b = 3 \<Longrightarrow> wrapAround n b \<in> {0, 1, 2}"
proof -
  assume b: "b = 2 \<or> b = 3"
  then have "0 \<le> n mod b \<and> n mod b < 3" by auto
  then show ?thesis unfolding wrapAround_def by auto
qed

lemma onTab_parentIndex:
  "parentIndex (fst x) \<in> {0, 1, 2} \<Longrightarrow> parentIndex (fst (after (onTab c qs ev x))) \<in> {0, 1, 2}"
  using wrapAround_range [of "if shouldShowIndirect qs (fst x) then 3 else 2"]
  by (simp add: onTab_def Let_def consumed_def dispatch_parentIndex)

lemma onArrowRight_parentIndex: "parentIndex (fst (after (onArrowRight c qs x))) = parentIndex (fst x)"
    by (simp add: onArrowRight_def Let_def consumed_def failed_def dispatch_parentIndex
        setParentId_def split: option.splits)
lemma onArrowLeft_parentIndex: "parentIndex (fst (after (onArrowLeft c resp x))) = parentIndex (fst x)"
    by (simp add: onArrowLeft_def Let_def consumed_def failed_def dispatch_parentIndex
        setParentId_def split: sum.splits)
lemma onArrowUpDown_parentIndex: "parentIndex (fst (after (onArrowUpDown c qs ev x))) = parentIndex (fst x)"
    by (simp add: onArrowUpDown_def Let_def consumed_def failed_def dispatch_parentIndex
        setChildId_def split: option.splits)
lemma onEnter_parentIndex: "parentIndex (fst (after (onEnter app resp x))) = parentIndex (fst x)"
    by (simp add: onEnter_def consumed_def failed_def split: sum.splits prod.splits)
lemma onBackspace_parentIndex: "parentIndex (fst (after (onBackspace c x))) = parentIndex (fst x)"
    by (simp add: onBackspace_def consumed_def dispatch_parentIndex setFilterText_def)

lemma dispatch_keeps_parentIndex:
  "(\<And>s. parentIndex (f s) = parentIndex s) \<Longrightarrow>
   parentIndex (fst (dispatch c f x)) = parentIndex (fst x)"
  by (simp add: dispatch_def pass_parentIndex)

lemma appendFilterText_parentIndex [simp]: "parentIndex (appendFilterText i t s) = parentIndex s"
  by (simp add: appendFilterText_def setFilterText_def split: option.splits)

lemma setParentId_parentIndex [simp]: "parentIndex (setParentId i v s) = parentIndex s"
  by (simp add: setParentId_def)

lemma onOtherKey_parentIndex: "parentIndex (fst (after (onOtherKey c ev x))) = parentIndex (fst x)"
  by (simp add: onOtherKey_def consumed_def ignored_def dispatch_keeps_parentIndex
      del: includes_s.simps)

lemma activePane_in_range:
  assumes "parentIndex (fst x) \<in> {0, 1, 2}"
  shows "parentIndex (fst (pass c x)) \<in> {0, 1, 2}"
    and "parentIndex (fst (after (keydown app c resp ev x))) \<in> {0, 1, 2}"
    and "parentIndex (fst (clickPane c i x)) \<in> {0, 1, 2}"
    and "parentIndex (fst (clickItem c k x)) \<in> {0, 1, 2}"
proof -
  show "parentIndex (fst (pass c x)) \<in> {0, 1, 2}"
    using assms by (simp add: pass_parentIndex)
  show "parentIndex (fst (clickPane c i x)) \<in> {0, 1, 2}"
    using assms by (auto simp add: clickPane_def dispatch_parentIndex)
  show "parentIndex (fst (clickItem c k x)) \<in> {0, 1, 2}"
    using assms
    by (simp add: clickItem_def Let_def dispatch_parentIndex setChildId_def split: option.splits)
  show "parentIndex (fst (after (keydown app c resp ev x))) \<in> {0, 1, 2}"
    using assms onTab_parentIndex [of x c "shown (snd x)" ev]
    by (simp add: keydown_def Let_def onArrowRight_parentIndex onArrowLeft_parentIndex
        onArrowUpDown_parentIndex onEnter_parentIndex onBackspace_parentIndex
        onOtherKey_parentIndex)
qed

section \<open>The request of the direct pane\<close>

text \<open>
  Line 59: the request for the direct pane's list, \<open>directParentId ?? itemCatalogId\<close>.
  \<open>null\<close> and the id of the catalog ask for the same list.
\<close>

definition directChildrenUrl :: "jsval \<Rightarrow> string" where
  "directChildrenUrl directParentId' =
     ''/items/'' @ (case directParentId' of Str s \<Rightarrow> s | _ \<Rightarrow> itemCatalogId) @ ''/children''"

section \<open>Predicates on selections\<close>

text \<open>
  \<open>idsOf d\<close> are the ids of the items of a list on display, \<open>selectedIn items v\<close> says
  that \<open>v\<close> is the id of an item of the list, and \<open>selectionValid\<close> is the invariant of
  section 3 of the spec: every selection is \<open>null\<close> or the id of an item of the list its
  pane has on display.
\<close>

definition idsOf :: "candidate list option \<Rightarrow> jsval set" where
  "idsOf d = Str ` id_c ` set (orEmpty d)"

definition selectedIn :: "candidate list \<Rightarrow> jsval \<Rightarrow> bool" where
  "selectedIn items v = (\<exists>item \<in> set items. v = Str (id_c item))"

definition selectionValid :: "snapshot \<Rightarrow> navigator \<Rightarrow> bool" where
  "selectionValid qs st =
     (case qs of (q0, q1, q2) \<Rightarrow>
      case childIds st of (a, b, d) \<Rightarrow>
        (a = Null \<or> selectedIn (orEmpty q0) a)
        \<and> (b = Null \<or> selectedIn (orEmpty q1) b)
        \<and> (d = Null \<or> selectedIn (orEmpty q2) d))"

text \<open>
  The lists fetched for a pane: the one it has on display and the ones the cache holds
  under a key of that pane. \<open>fetchedIds c q i\<close> are the ids of their items, for the
  pane \<open>i\<close> with the list \<open>q\<close> on display. \<open>keptOrFetched extra c x y\<close> relates the
  component before and after an operation: every selection of \<open>y\<close> is the one of \<open>x\<close>,
  or the id of an item of a list fetched for its pane, or a value of \<open>extra\<close> for its
  pane.
\<close>

fun paneOf :: "queryKey \<Rightarrow> int" where
  "paneOf (DirectChildren p) = 0"
| "paneOf (ActionChildren d) = 1"
| "paneOf (IndirectChildren p a) = 2"

definition fetchedIds :: "cache \<Rightarrow> candidate list option \<Rightarrow> int \<Rightarrow> jsval set" where
  "fetchedIds c q i =
     idsOf q \<union> (\<Union>(k, d) \<in> set c. if paneOf k = i then Str ` id_c ` set d else {})"

definition keptOrFetched ::
  "(int \<Rightarrow> jsval set) \<Rightarrow> cache \<Rightarrow> navigator \<times> rendered option
     \<Rightarrow> navigator \<times> rendered option \<Rightarrow> bool" where
  "keptOrFetched extra c x y =
     (case shown (snd x) of (q0, q1, q2) \<Rightarrow>
      case childIds (fst x) of (a, b, d) \<Rightarrow>
      case childIds (fst y) of (a', b', d') \<Rightarrow>
        (a' = a \<or> a' \<in> extra 0 \<union> fetchedIds c q0 0)
        \<and> (b' = b \<or> b' \<in> extra 1 \<union> fetchedIds c q1 1)
        \<and> (d' = d \<or> d' \<in> extra 2 \<union> fetchedIds c q2 2))"

text \<open>
  \<open>within c x y\<close>: the lists on display in \<open>y\<close> are lists fetched for their panes in
  \<open>x\<close>.
\<close>

definition within :: "cache \<Rightarrow> navigator \<times> rendered option \<Rightarrow> navigator \<times> rendered option \<Rightarrow> bool" where
  "within c x y =
     (idsOf (fst (shown (snd y))) \<subseteq> fetchedIds c (fst (shown (snd x))) 0
      \<and> idsOf (fst (snd (shown (snd y)))) \<subseteq> fetchedIds c (fst (snd (shown (snd x)))) 1
      \<and> idsOf (snd (snd (shown (snd y)))) \<subseteq> fetchedIds c (snd (snd (shown (snd x)))) 2)"

text \<open>
  The one way to the selection \<open>undefined\<close>: ArrowUp or ArrowDown while the filtered list
  of the active pane is empty, for the active pane.
\<close>

definition undefinedBy :: "keyEvent \<Rightarrow> navigator \<times> rendered option \<Rightarrow> int \<Rightarrow> jsval set" where
  "undefinedBy ev x i =
     (if (key ev = ''ArrowUp'' \<or> key ev = ''ArrowDown'')
         \<and> i = parentIndex (fst x)
         \<and> nth3 (filteredListItems (shown (snd x)) (filterTexts (fst x))) i = Some []
      then {Undefined} else {})"

section \<open>Inputs used as examples\<close>

definition press :: "string \<Rightarrow> keyEvent" where
  "press k = \<lparr>key = k, shiftKey = False, metaKey = False, ctrlKey = False, altKey = False\<rparr>"

text \<open>The component after its first render, before any fetch has resolved.\<close>

definition mounted :: "navigator \<times> rendered option" where
  "mounted = pass [] (initialState, None)"

text \<open>
  Three root items, the actions of the first (the first action takes an indirect
  object) and of the second (none does), and one indirect item.
\<close>

definition listItem :: "string \<Rightarrow> string \<Rightarrow> bool \<Rightarrow> candidate" where
  "listItem i n h = \<lparr>id_c = i, name = n, detail = [], hasChildren = h, indirectTypes = None\<rparr>"

definition rootItems :: "candidate list" where
  "rootItems =
     [listItem ''1'' ''alpha'' True, listItem ''2'' ''beta'' False,
      listItem ''3'' ''safari'' False]"

definition actionsOfFirst :: "candidate list" where
  "actionsOfFirst =
     [(listItem ''move'' ''Move To'' False)\<lparr>indirectTypes := Some [''folder'']\<rparr>,
      listItem ''open'' ''Open'' False]"

definition actionsOfSecond :: "candidate list" where
  "actionsOfSecond = [listItem ''open'' ''Open'' False]"

definition indirectItems :: "candidate list" where
  "indirectItems = [listItem ''9'' ''Trash'' False]"

text \<open>
  The cache once the root list, the actions of the first item and the indirect items
  of its first action have arrived; then with the actions of the second item; and with
  the children of the first item, of which there are none.
\<close>

definition cacheA :: cache where
  "cacheA =
     [(DirectChildren Null, rootItems),
      (ActionChildren (Str ''1''), actionsOfFirst),
      (IndirectChildren Null (Str ''move''), indirectItems)]"

definition cacheB :: cache where
  "cacheB = (ActionChildren (Str ''2''), actionsOfSecond) # cacheA"

definition cacheC :: cache where
  "cacheC = (DirectChildren (Str ''1''), []) # cacheA"


text \<open>
  The three lists have arrived: the first item, its first action and the indirect
  item are selected.
\<close>

definition loaded :: "navigator \<times> rendered option" where
  "loaded = pass cacheA mounted"

text \<open>
  ArrowDown selects the second item; its actions are still being fetched and the list
  of the first item's actions stays on display (\<open>keepPreviousData\<close>). Two Tabs make
  the indirect pane the active one.
\<close>

definition movedDown :: "navigator \<times> rendered option" where
  "movedDown = after (keydown True cacheA Rejected (press ''ArrowDown'') loaded)"

definition onIndirect :: "navigator \<times> rendered option" where
  "onIndirect = after (keydown True cacheA Rejected (press ''Tab'')
                  (after (keydown True cacheA Rejected (press ''Tab'') movedDown)))"

text \<open>
  ArrowRight on the first root item, which has children, makes it the parent of the
  direct pane; the root list stays on display until its children have arrived.
\<close>

definition drilled :: "navigator \<times> rendered option" where
  "drilled = after (keydown True cacheA Rejected (press ''ArrowRight'') loaded)"

text \<open>After ArrowDown, the letter l is typed: of the root items only alpha matches.\<close>

definition typedL :: "navigator \<times> rendered option" where
  "typedL = after (keydown True cacheA Rejected (press ''l'') movedDown)"

text \<open>A candidate whose detail, and not its name, contains the word budget.\<close>

definition report :: candidate where
  "report = \<lparr>id_c = ''7'', name = ''report'', detail = ''budget'', hasChildren = False,
             indirectTypes = None\<rparr>"

section \<open>Selections across a pass, a click and a key press\<close>

lemma matchSorter_subset: "set (matchSorter xs t ks) \<subseteq> set xs"
  by (auto simp add: matchSorter_def)

lemma firstId_truthy: "truthy (firstId l) \<Longrightarrow> firstId l \<in> Str ` id_c ` set l"
  by (cases l) (simp_all add: firstId_def truthy_def)

lemma firstId_matchSorter:
  "truthy (firstId (matchSorter (orEmpty q) t ks)) \<Longrightarrow>
   firstId (matchSorter (orEmpty q) t ks) \<in> idsOf q"
  using firstId_truthy [of "matchSorter (orEmpty q) t ks"] matchSorter_subset [of "orEmpty q" t ks]
  by (auto simp add: idsOf_def)


text \<open>The data of a query is the data it had or a list of the cache.\<close>

lemma idsOf_queryData: "idsOf (queryData c q k) \<subseteq> fetchedIds c q (paneOf k)"
proof (cases "map_of c k")
  case None
  then show ?thesis by (auto simp add: queryData_def fetchedIds_def)
next
  case (Some d)
  then have "(k, d) \<in> set c" by (rule map_of_SomeD)
  then show ?thesis using Some
    by (fastforce simp add: queryData_def fetchedIds_def idsOf_def orEmpty_def)
qed

lemma fetchedIds_mono: "idsOf r \<subseteq> fetchedIds c q i \<Longrightarrow> fetchedIds c r i \<subseteq> fetchedIds c q i"
  by (auto simp add: fetchedIds_def)

lemma idsOf_subset_fetchedIds: "idsOf q \<subseteq> fetchedIds c q i"
  by (auto simp add: fetchedIds_def)

lemma keptOrFetched_parts:
  "keptOrFetched extra c x y =
     ((fst (childIds (fst y)) = fst (childIds (fst x))
         \<or> fst (childIds (fst y)) \<in> extra 0 \<union> fetchedIds c (fst (shown (snd x))) 0)
      \<and> (fst (snd (childIds (fst y))) = fst (snd (childIds (fst x)))
         \<or> fst (snd (childIds (fst y))) \<in> extra 1 \<union> fetchedIds c (fst (snd (shown (snd x)))) 1)
      \<and> (snd (snd (childIds (fst y))) = snd (snd (childIds (fst x)))
         \<or> snd (snd (childIds (fst y))) \<in> extra 2 \<union> fetchedIds c (snd (snd (shown (snd x)))) 2))"
  by (simp add: keptOrFetched_def split: prod.splits)

lemma within_refl: "within c x x"
  by (simp add: within_def idsOf_subset_fetchedIds)

lemma within_same: "shown (snd y) = shown (snd x) \<Longrightarrow> within c x y"
  by (simp add: within_def idsOf_subset_fetchedIds)

lemma within_trans: "within c x y \<Longrightarrow> within c y z \<Longrightarrow> within c x z"
  unfolding within_def by (meson fetchedIds_mono subset_trans)

lemma keptOrFetched_same: "childIds (fst y) = childIds (fst x) \<Longrightarrow> keptOrFetched extra c x y"
  by (simp add: keptOrFetched_parts)

lemma keptOrFetched_compose:
  assumes "keptOrFetched extra c x y" and "within c x y" and "keptOrFetched (\<lambda>i. {}) c y z"
  shows "keptOrFetched extra c x z"
proof -
  from assms(2) have
    "fetchedIds c (fst (shown (snd y))) 0 \<subseteq> fetchedIds c (fst (shown (snd x))) 0"
    "fetchedIds c (fst (snd (shown (snd y)))) 1 \<subseteq> fetchedIds c (fst (snd (shown (snd x)))) 1"
    "fetchedIds c (snd (snd (shown (snd y)))) 2 \<subseteq> fetchedIds c (snd (snd (shown (snd x)))) 2"
    by (simp_all add: within_def fetchedIds_mono)
  with assms(1,3) show ?thesis
    unfolding keptOrFetched_parts by (simp add: subset_iff) metis
qed

text \<open>One commit: the data of the render, and what the effects select.\<close>

lemma within_commit: "within c (st, prev) (st', Some (render c prev st))"
  using idsOf_queryData [of c "fst (shown prev)" "DirectChildren (fst (parentIds st))"]
    idsOf_queryData [of c "fst (snd (shown prev))" "ActionChildren (fst (childIds st))"]
    idsOf_queryData [of c "snd (snd (shown prev))"
      "IndirectChildren (snd (snd (parentIds st))) (fst (snd (childIds st)))"]
  by (simp add: within_def render_fields useQueries_parts)

lemma keptOrFetched_commit:
  "keptOrFetched (\<lambda>i. {}) c (st, prev)
     (layoutEffects prev (render c prev st) st, Some (render c prev st))"
proof -
  let ?cur = "render c prev st"
  have w: "within c (st, prev) (st, Some ?cur)" by (rule within_commit)
  have 0: "truthy (firstDirectChildListItemId ?cur) \<Longrightarrow>
           firstDirectChildListItemId ?cur \<in> fetchedIds c (fst (shown prev)) 0"
    using w firstId_matchSorter [of "fst (queriesData ?cur)" "fst (filterTexts st)"]
    by (auto simp add: within_def render_fields filteredListItems_parts)
  have 1: "truthy (firstActionChildListItemId ?cur) \<Longrightarrow>
           firstActionChildListItemId ?cur \<in> fetchedIds c (fst (snd (shown prev))) 1"
    using w firstId_matchSorter [of "fst (snd (queriesData ?cur))" "fst (snd (filterTexts st))"]
    by (auto simp add: within_def render_fields filteredListItems_parts)
  have 2: "truthy (firstIndirectChildListItemId ?cur) \<Longrightarrow>
           firstIndirectChildListItemId ?cur \<in> fetchedIds c (snd (snd (shown prev))) 2"
    using w firstId_matchSorter [of "snd (snd (queriesData ?cur))" "snd (snd (filterTexts st))"]
    by (auto simp add: within_def render_fields filteredListItems_parts)
  show ?thesis
    using 0 1 2
    by (cases "childIds st") (simp add: keptOrFetched_parts layoutEffects_childIds)
qed

lemma pass_keptOrFetched:
  "keptOrFetched (\<lambda>i. {}) c x (pass c x) \<and> within c x (pass c x)"
proof (rule pass_relates [where R = "\<lambda>a b. keptOrFetched (\<lambda>i. {}) c a b \<and> within c a b"])
  fix a b d
  assume "keptOrFetched (\<lambda>i. {}) c a b \<and> within c a b"
    and "keptOrFetched (\<lambda>i. {}) c b d \<and> within c b d"
  then show "keptOrFetched (\<lambda>i. {}) c a d \<and> within c a d"
    by (auto intro: keptOrFetched_compose within_trans)
next
  fix st prev
  show "keptOrFetched (\<lambda>i. {}) c (st, prev)
          (layoutEffects prev (render c prev st) st, Some (render c prev st))
        \<and> within c (st, prev) (layoutEffects prev (render c prev st) st, Some (render c prev st))"
    by (simp add: keptOrFetched_commit within_commit)
qed

lemma dispatch_keptOrFetched:
  assumes "keptOrFetched extra c x (f (fst x), snd x)"
  shows "keptOrFetched extra c x (dispatch c f x)"
proof (cases "f (fst x) = fst x")
  case True
  then show ?thesis by (simp add: dispatch_def keptOrFetched_same)
next
  case False
  have "within c x (f (fst x), snd x)" by (simp add: within_same)
  with assms have "keptOrFetched extra c x (pass c (f (fst x), snd x))"
    using pass_keptOrFetched [of c "(f (fst x), snd x)"] by (blast intro: keptOrFetched_compose)
  with False show ?thesis by (simp add: dispatch_def)
qed

lemma dispatch_within: "within c x (dispatch c f x)"
proof (cases "f (fst x) = fst x")
  case True
  then show ?thesis by (simp add: dispatch_def within_refl)
next
  case False
  have "within c x (f (fst x), snd x)" by (simp add: within_same)
  then have "within c x (pass c (f (fst x), snd x))"
    using pass_keptOrFetched [of c "(f (fst x), snd x)"] by (blast intro: within_trans)
  with False show ?thesis by (simp add: dispatch_def)
qed

lemma nthInt_in_set: "nthInt xs i = Some y \<Longrightarrow> y \<in> set xs"
  by (auto simp add: nthInt_def split: if_splits)

lemma nthInt_wrapAround:
  "xs \<noteq> [] \<Longrightarrow> \<exists>y. nthInt xs (wrapAround n (int (length xs))) = Some y"
  by (simp add: nthInt_def wrapAround_def)

lemma nth3_filteredListItems:
  "nth3 (filteredListItems qs ts) i = Some items \<Longrightarrow>
   (i = 0 \<and> set items \<subseteq> set (orEmpty (fst qs))) \<or> (i = 1 \<and> set items \<subseteq> set (orEmpty (fst (snd qs))))
   \<or> (i = 2 \<and> set items \<subseteq> set (orEmpty (snd (snd qs))))"
  by (cases qs; cases ts)
    (auto simp add: filteredListItems_def matchSorter_subset [THEN subsetD] split: if_splits)

lemma keptOrFetched_setChildId:
  assumes "nth3 (filteredListItems (shown (snd x)) (filterTexts (fst x))) i = Some items"
    and "v \<in> extra i \<union> Str ` id_c ` set items"
  shows "keptOrFetched extra c x (setChildId i v (fst x), snd x)"
  using assms
    nth3_filteredListItems [of "shown (snd x)" "filterTexts (fst x)" i items]
  by (cases "childIds (fst x)")
    (auto simp add: keptOrFetched_parts setChildId_def idsOf_def fetchedIds_def)

lemma keptOrFetched_onArrowUpDown:
  assumes "key ev = ''ArrowUp'' \<or> key ev = ''ArrowDown''"
  shows "keptOrFetched (undefinedBy ev x) c x (after (onArrowUpDown c (shown (snd x)) ev x))"
proof (cases "nth3 (filteredListItems (shown (snd x)) (filterTexts (fst x))) (parentIndex (fst x))")
  case None
  then show ?thesis by (simp add: onArrowUpDown_def Let_def failed_def keptOrFetched_same)
next
  case (Some items)
  let ?n = "wrapAround
      (findIndex (\<lambda>item. Str (id_c item) = selectedChildId (fst x)) items
        + (if key ev = ''ArrowUp'' then - 1 else 1)) (int (length items))"
  let ?v = "case nthInt items ?n of None \<Rightarrow> Undefined | Some item \<Rightarrow> Str (id_c item)"
  have "?v \<in> undefinedBy ev x (parentIndex (fst x)) \<union> Str ` id_c ` set items"
  proof (cases "items = []")
    case True
    then show ?thesis using assms Some by (simp add: undefinedBy_def nthInt_def)
  next
    case False
    then obtain y where "nthInt items ?n = Some y"
      using nthInt_wrapAround [of items] by blast
    then show ?thesis by (auto dest: nthInt_in_set)
  qed
  then have "keptOrFetched (undefinedBy ev x) c x
               (setChildId (parentIndex (fst x)) ?v (fst x), snd x)"
    by (rule keptOrFetched_setChildId [OF Some])
  then show ?thesis using Some
    by (simp add: onArrowUpDown_def Let_def consumed_def dispatch_keptOrFetched)
qed

lemma keptOrFetched_keydown:
  "keptOrFetched (undefinedBy ev x) c x (after (keydown app c resp ev x))"
proof -
  let ?e = "undefinedBy ev x"
  have tab: "keptOrFetched ?e c x (after (onTab c qs ev x))" for qs
    by (simp add: onTab_def Let_def consumed_def dispatch_keptOrFetched keptOrFetched_same)
  have right: "keptOrFetched ?e c x (after (onArrowRight c qs x))" for qs
    by (simp add: onArrowRight_def Let_def consumed_def failed_def dispatch_keptOrFetched
        keptOrFetched_same setParentId_def split: option.splits)
  have left: "keptOrFetched ?e c x (after (onArrowLeft c resp x))"
    by (simp add: onArrowLeft_def Let_def consumed_def failed_def dispatch_keptOrFetched
        keptOrFetched_same setParentId_def split: sum.splits)
  have enter: "keptOrFetched ?e c x (after (onEnter app resp x))"
    by (simp add: onEnter_def consumed_def failed_def keptOrFetched_same
        split: prod.splits sum.splits)
  have bksp: "keptOrFetched ?e c x (after (onBackspace c x))"
    by (simp add: onBackspace_def consumed_def dispatch_keptOrFetched keptOrFetched_same
        setFilterText_def)
  have other: "keptOrFetched ?e c x (after (onOtherKey c ev x))"
  proof -
    let ?y = "dispatch c (setParentId (parentIndex (fst x)) (Str itemCatalogId)) x"
    let ?f = "appendFilterText (parentIndex (fst x)) (toLowerCase (key ev))"
    have 1: "keptOrFetched ?e c x ?y"
      by (simp add: dispatch_keptOrFetched keptOrFetched_same setParentId_def)
    have w: "within c x ?y" by (rule dispatch_within)
    have "childIds (?f (fst ?y)) = childIds (fst ?y)"
      by (simp add: appendFilterText_def setFilterText_def split: option.splits)
    then have 2: "keptOrFetched (\<lambda>i. {}) c ?y (dispatch c ?f ?y)"
      by (simp add: dispatch_keptOrFetched keptOrFetched_same)
    from keptOrFetched_compose [OF 1 w 2] show ?thesis
      by (simp add: onOtherKey_def consumed_def ignored_def keptOrFetched_same
          del: includes_s.simps)
  qed
  show ?thesis
    by (simp add: keydown_def Let_def tab right left enter bksp other
        keptOrFetched_onArrowUpDown)
qed

lemma keptOrFetched_clickPane: "keptOrFetched extra c x (clickPane c i x)"
  by (simp add: clickPane_def dispatch_keptOrFetched keptOrFetched_same)

lemma keptOrFetched_clickItem: "keptOrFetched extra c x (clickItem c k x)"
proof (cases "nth3 (filteredListItems (shown (snd x)) (filterTexts (fst x))) (parentIndex (fst x))")
  case None
  then show ?thesis by (simp add: clickItem_def keptOrFetched_same)
next
  case (Some items)
  show ?thesis
  proof (cases "nthInt items k")
    case None
    with Some show ?thesis by (simp add: clickItem_def keptOrFetched_same)
  next
    case (Some it)
    then have "Str (id_c it) \<in> extra (parentIndex (fst x)) \<union> Str ` id_c ` set items"
      by (auto dest: nthInt_in_set)
    then have "keptOrFetched extra c x
                 (setChildId (parentIndex (fst x)) (Str (id_c it)) (fst x), snd x)"
      by (rule keptOrFetched_setChildId [OF \<open>nth3 _ _ = Some items\<close>])
    then show ?thesis using Some \<open>nth3 _ _ = Some items\<close>
      by (simp add: clickItem_def dispatch_keptOrFetched)
  qed
qed

text \<open>The values of the last render of a pass.\<close>

lemma pass_last_render:
  "snd (pass c x) = Some (render c (snd (pass c x)) (fst (pass c x)))"
proof -
  obtain prev where p: "snd (pass c x) = Some (render c prev (fst (pass c x)))"
    using pass_rendered [of c x] by blast
  then show ?thesis by simp
qed

text \<open>
  An auto-selection runs when the first id of its filtered list differs from the one
  of the render before, and writes it when it is a non-empty string. So at the end of a
  pass: if the first id is a non-empty string and differs from the one before the pass,
  it is the selection; and in any case the selection is the one before the pass or the
  first id.
\<close>

lemma pass_first_direct:
  "snd (pass c x) = Some r \<Longrightarrow> truthy (firstDirectChildListItemId r) \<Longrightarrow>
     (changed (snd x) r firstDirectChildListItemId \<longrightarrow>
        fst (childIds (fst (pass c x))) = firstDirectChildListItemId r)
     \<and> (fst (childIds (fst (pass c x))) = fst (childIds (fst x))
          \<or> fst (childIds (fst (pass c x))) = firstDirectChildListItemId r)"
proof (induction x rule: pass_cases_induct [where c = c])
  case (stop st prev)
  from stop have "childIds (layoutEffects prev (render c prev st) st) = childIds st" by simp
  then show ?case using stop.prems
    by (cases "childIds st") (auto simp add: pass_stop [OF stop.hyps] layoutEffects_childIds split: if_splits)
next
  case (step st prev)
  then show ?case
    by (cases "childIds st")
      (auto simp add: pass_step layoutEffects_childIds changed_def split: if_splits option.splits)
qed



text \<open>
  While the parent of the direct pane is the one of the render before, nothing empties
  the direct pane's filter text.
\<close>

lemma pass_direct_filter_kept:
  "snd x = Some p \<Longrightarrow> directParentId p = fst (parentIds (fst x)) \<Longrightarrow>
   fst (filterTexts (fst (pass c x))) = fst (filterTexts (fst x))"
proof (induction x arbitrary: p rule: pass_cases_induct [where c = c])
  case (stop st prev)
  then show ?case by (simp add: pass_stop)
next
  case (step st prev)
  from step.prems have same: "fst (filterTexts (layoutEffects prev (render c prev st) st)) = fst (filterTexts st)"
    by (cases "filterTexts st") (simp add: layoutEffects_filterTexts changed_def render_fields)
  have "fst (filterTexts (fst (pass c (layoutEffects prev (render c prev st) st, Some (render c prev st)))))
          = fst (filterTexts (layoutEffects prev (render c prev st) st))"
    using step.IH [of "render c prev st"] by (simp add: render_fields)
  with same show ?case using step.hyps by (simp add: pass_step)
qed

lemma letter_s:
  "toLowerCase ''s'' = ''s''"
  "includes_s ''abcdefghijklmnopqrstuvwxyz1234567890'' ''s''"
  by code_simp+

text \<open>
  A pass only ever empties a filter text, and the list the direct pane has on display
  after a pass is the list of its key in the cache, or else the list it had on display.
\<close>

lemma pass_direct_filter_empty:
  "fst (filterTexts (fst x)) = [] \<Longrightarrow> fst (filterTexts (fst (pass c x))) = []"
  using pass_relates
    [where R = "\<lambda>a b. fst (filterTexts (fst a)) = [] \<longrightarrow> fst (filterTexts (fst b)) = []"
       and c = c and x = x]
  by (simp add: layoutEffects_filterTexts split: prod.splits)

lemma pass_direct_data:
  "fst (shown (snd (pass c x)))
     = queryData c (fst (shown (snd x))) (DirectChildren (fst (parentIds (fst x))))"
proof (induction x rule: pass_cases_induct [where c = c])
  case (stop st prev)
  then show ?case by (simp add: pass_stop render_fields useQueries_parts)
next
  case (step st prev)
  then show ?case by (simp add: pass_step render_fields useQueries_parts)
qed

section \<open>C1: auto-selection of the first item\<close>




section \<open>C2: typing a letter at the root\<close>

text \<open>
  C2 fails on the code in one point: the key handler writes the id of the catalog into
  \<open>parentIds[0]\<close> without looking at it (line 283), so the parent id is no longer
  \<open>null\<close> after the key.
\<close>

theorem parent_id_changes_counterexample:
  "fst (parentIds (fst loaded)) = Null
   \<and> fst (parentIds (fst (after (keydown True cacheA Rejected (press ''s'') loaded))))
       \<noteq> fst (parentIds (fst loaded))"
  by code_simp

text \<open>
  C2, as the code has it. With the direct pane active and at the root (\<open>null\<close>) and an
  empty filter text, the key s makes the direct pane's filter text \<open>s\<close> and its parent
  id the id of the catalog, which asks for the same list as \<open>null\<close>; the list then on
  display is the one the cache holds for the catalog, or else the list that was on
  display, and the filtered list is its matches for \<open>s\<close>. When, in addition, the
  navigator had settled with the first item of its filtered list selected, and the
  first match for \<open>s\<close> has a non-empty id, that match is selected.
\<close>

theorem typing_s_at_root:
  assumes active: "parentIndex (fst x) = 0"
    and root: "fst (parentIds (fst x)) = Null"
    and nofilter: "fst (filterTexts (fst x)) = []"
  shows "let z = after (keydown app c resp (press ''s'') x);
             matches = matchSorter (orEmpty (fst (shown (snd z)))) ''s'' [''name'', ''details'']
         in fst (filterTexts (fst z)) = ''s''
            \<and> fst (parentIds (fst z)) = Str itemCatalogId
            \<and> directChildrenUrl (fst (parentIds (fst z)))
                = directChildrenUrl (fst (parentIds (fst x)))
            \<and> fst (shown (snd z))
                = queryData c (fst (shown (snd x))) (DirectChildren (Str itemCatalogId))
            \<and> fst (filteredListItems (shown (snd z)) (filterTexts (fst z))) = matches
            \<and> (snd x = Some (render c (snd x) (fst x))
               \<and> fst (childIds (fst x))
                   = firstId (fst (filteredListItems (shown (snd x)) (filterTexts (fst x))))
               \<and> matches = m # ms \<and> id_c m \<noteq> []
               \<longrightarrow> fst (childIds (fst z)) = Str (id_c m))"
proof -
  obtain st prev where x: "x = (st, prev)" by (cases x)
  obtain ap ip where P: "parentIds st = (Null, ap, ip)"
    using root x by (cases "parentIds st") simp
  obtain t1 t2 where F: "filterTexts st = ([], t1, t2)"
    using nofilter x by (cases "filterTexts st") simp
  from active x have idx: "parentIndex st = 0" by simp
  let ?k = "DirectChildren (Str itemCatalogId)"
  define st1 where "st1 = setParentId 0 (Str itemCatalogId) st"
  have ne1: "st1 \<noteq> st"
  proof
    assume "st1 = st"
    then have "parentIds st1 = parentIds st" by simp
    then show False by (simp add: st1_def setParentId_def P)
  qed
  have F1: "filterTexts st1 = ([], t1, t2)" and P1: "parentIds st1 = (Str itemCatalogId, ap, ip)"
    and C1: "childIds st1 = childIds st" and I1: "parentIndex st1 = 0"
    by (simp_all add: st1_def setParentId_def F P idx)
  define y where "y = pass c (st1, prev)"
  have y: "dispatch c (setParentId 0 (Str itemCatalogId)) x = y"
    using ne1 by (simp add: dispatch_def x st1_def [symmetric] y_def)
  obtain py where ry: "snd y = Some (render c py (fst y))"
    using pass_rendered [of c "(st1, prev)"] unfolding y_def by blast
  have Py: "parentIds (fst y) = (Str itemCatalogId, ap, ip)"
    by (simp add: y_def pass_parentIds P1)
  have Iy: "parentIndex (fst y) = 0"
    by (simp add: y_def pass_parentIndex I1)
  have Fy: "fst (filterTexts (fst y)) = []"
    unfolding y_def by (rule pass_direct_filter_empty) (simp add: F1)
  have Dy: "fst (shown (snd y)) = queryData c (fst (shown prev)) ?k"
    by (simp add: y_def pass_direct_data P1)
  define st2 where "st2 = appendFilterText 0 ''s'' (fst y)"
  have F2: "fst (filterTexts st2) = ''s''" and P2: "parentIds st2 = (Str itemCatalogId, ap, ip)"
    and C2: "childIds st2 = childIds (fst y)"
    using Fy
    by (cases "filterTexts (fst y)";
        simp add: st2_def appendFilterText_def setFilterText_def Py)+
  have ne2: "st2 \<noteq> fst y"
  proof
    assume "st2 = fst y"
    then have "fst (filterTexts st2) = fst (filterTexts (fst y))" by simp
    then show False by (simp add: F2 Fy)
  qed
  define z where "z = pass c (st2, snd y)"
  have k: "keydown app c resp (press ''s'') x
             = consumed (dispatch c (appendFilterText 0 ''s'')
                 (dispatch c (setParentId 0 (Str itemCatalogId)) x))"
    by (simp add: keydown_def press_def onOtherKey_def letter_s x idx del: includes_s.simps)
  have z: "after (keydown app c resp (press ''s'') x) = z"
    unfolding k y using ne2
    by (simp add: consumed_def dispatch_def st2_def [symmetric] z_def)
  have Fz: "fst (filterTexts (fst z)) = ''s''"
    using pass_direct_filter_kept [of "(st2, snd y)" "render c py (fst y)" c]
    by (simp add: z_def ry render_fields Py P2 F2)
  have Pz: "parentIds (fst z) = (Str itemCatalogId, ap, ip)"
    by (simp add: z_def pass_parentIds P2)
  have Dz: "fst (shown (snd z)) = queryData c (fst (shown prev)) ?k"
    by (simp add: z_def pass_direct_data P2 Dy)
  let ?matches = "matchSorter (orEmpty (fst (shown (snd z)))) ''s'' [''name'', ''details'']"
  have Lz: "fst (filteredListItems (shown (snd z)) (filterTexts (fst z))) = ?matches"
    by (simp add: filteredListItems_parts Fz)
  have Cz: "fst (childIds (fst z)) = Str (id_c m)"
    if settled: "snd x = Some (render c (snd x) (fst x))"
      and first: "fst (childIds (fst x))
                    = firstId (fst (filteredListItems (shown (snd x)) (filterTexts (fst x))))"
      and match: "?matches = m # ms" and ident: "id_c m \<noteq> []"
  proof -
    obtain p0 where p0: "prev = Some p0" and r0: "p0 = render c prev st"
      using settled x by simp
    have "shown prev = queriesData p0"
      by (simp add: p0)
    then have "shown prev = queriesData (render c prev st)"
      unfolding r0 [symmetric] .
    then have s0: "useQueries c (shown prev) st = shown prev"
      by (simp add: render_fields)
    have "firstDirectChildListItemId (render c prev st) = fst (childIds st)"
      using first x by (simp add: render_fields s0)
    then have first0: "firstDirectChildListItemId p0 = fst (childIds st)"
      using r0 by simp
    let ?ry = "render c py (fst y)"
    obtain pz where rz: "snd z = Some (render c pz (fst z))"
      using pass_rendered [of c "(st2, snd y)"] unfolding z_def by blast
    let ?rz = "render c pz (fst z)"
    have "shown (snd z) = useQueries c (shown pz) (fst z)"
      unfolding rz by (simp add: render_fields)
    then have firstz: "firstDirectChildListItemId ?rz = Str (id_c m)"
      using Lz match by (simp add: render_fields firstId_def)
    then have tz: "truthy (firstDirectChildListItemId ?rz)"
      using ident by (simp add: truthy_def)
    have zz: "(changed (snd y) ?rz firstDirectChildListItemId \<longrightarrow>
                 fst (childIds (fst z)) = firstDirectChildListItemId ?rz)
              \<and> (fst (childIds (fst z)) = fst (childIds (fst y))
                 \<or> fst (childIds (fst z)) = firstDirectChildListItemId ?rz)"
      using pass_first_direct [of c "(st2, snd y)" ?rz] rz tz
      by (simp add: z_def [symmetric] C2)
    show ?thesis
    proof (cases "firstDirectChildListItemId ?ry = firstDirectChildListItemId ?rz")
      case False
      then have "changed (snd y) ?rz firstDirectChildListItemId"
        by (simp add: ry changed_def)
      with zz firstz show ?thesis by simp
    next
      case True
      with tz have ty: "truthy (firstDirectChildListItemId ?ry)" by simp
      have yy: "(changed prev ?ry firstDirectChildListItemId \<longrightarrow>
                   fst (childIds (fst y)) = firstDirectChildListItemId ?ry)
                \<and> (fst (childIds (fst y)) = fst (childIds st)
                   \<or> fst (childIds (fst y)) = firstDirectChildListItemId ?ry)"
        using pass_first_direct [of c "(st1, prev)" ?ry] ry ty
        by (simp add: y_def [symmetric] C1)
      have "fst (childIds (fst y)) = firstDirectChildListItemId ?ry"
      proof (cases "firstDirectChildListItemId p0 = firstDirectChildListItemId ?ry")
        case True
        with yy first0 show ?thesis by auto
      next
        case False
        then have "changed prev ?ry firstDirectChildListItemId"
          by (simp add: p0 changed_def)
        with yy show ?thesis by simp
      qed
      with zz True firstz show ?thesis by auto
    qed
  qed
  show ?thesis
    unfolding z Let_def
    using Fz Pz Dz Lz Cz by (simp add: directChildrenUrl_def P x)
qed

theorem typing_s_at_root_witness:
  "parentIndex (fst loaded) = 0
   \<and> fst (parentIds (fst loaded)) = Null
   \<and> fst (filterTexts (fst loaded)) = []
   \<and> snd loaded = Some (render cacheA (snd loaded) (fst loaded))
   \<and> fst (childIds (fst loaded))
       = firstId (fst (filteredListItems (shown (snd loaded)) (filterTexts (fst loaded))))
   \<and> matchSorter
        (orEmpty (fst (shown (snd (after (keydown True cacheA Rejected (press ''s'') loaded))))))
        ''s'' [''name'', ''details'']
       = [listItem ''3'' ''safari'' False]
   \<and> fst (filterTexts (fst (after (keydown True cacheA Rejected (press ''s'') loaded)))) = ''s''
   \<and> fst (parentIds (fst (after (keydown True cacheA Rejected (press ''s'') loaded))))
       = Str itemCatalogId
   \<and> fst (childIds (fst (after (keydown True cacheA Rejected (press ''s'') loaded))))
       = Str ''3''
   \<and> parentIndex (fst mounted) = 0
   \<and> fst (parentIds (fst mounted)) = Null
   \<and> fst (filterTexts (fst mounted)) = []
   \<and> matchSorter
        (orEmpty (fst (shown (snd (after (keydown True [] Rejected (press ''s'') mounted))))))
        ''s'' [''name'', ''details'']
       = []
   \<and> fst (filterTexts (fst (after (keydown True [] Rejected (press ''s'') mounted)))) = ''s''
   \<and> fst (parentIds (fst (after (keydown True [] Rejected (press ''s'') mounted))))
       = Str itemCatalogId"
proof -
  have 1: "parentIndex (fst loaded) = 0" by code_simp
  have 2: "fst (parentIds (fst loaded)) = Null" by code_simp
  have 3: "fst (filterTexts (fst loaded)) = []" by code_simp
  have 4: "snd loaded = Some (render cacheA (snd loaded) (fst loaded))" by code_simp
  have 5: "fst (childIds (fst loaded))
       = firstId (fst (filteredListItems (shown (snd loaded)) (filterTexts (fst loaded))))"
    by code_simp
  have 6: "matchSorter
        (orEmpty (fst (shown (snd (after (keydown True cacheA Rejected (press ''s'') loaded))))))
        ''s'' [''name'', ''details'']
       = listItem ''3'' ''safari'' False # []" by code_simp
  have 7: "id_c (listItem ''3'' ''safari'' False) \<noteq> []" by code_simp
  have 8: "id_c (listItem ''3'' ''safari'' False) = ''3''" by code_simp
  have 9: "parentIndex (fst mounted) = 0" by code_simp
  have 10: "fst (parentIds (fst mounted)) = Null" by code_simp
  have 11: "fst (filterTexts (fst mounted)) = []" by code_simp
  have 12: "matchSorter
        (orEmpty (fst (shown (snd (after (keydown True [] Rejected (press ''s'') mounted))))))
        ''s'' [''name'', ''details'']
       = []" by code_simp
  note a = typing_s_at_root
    [OF 1 2 3, where app = True and c = cacheA and resp = Rejected
       and m = "listItem ''3'' ''safari'' False" and ms = "[]", unfolded Let_def]
  note b = typing_s_at_root
    [OF 9 10 11, where app = True and c = "[]" and resp = Rejected
       and m = "listItem ''3'' ''safari'' False" and ms = "[]", unfolded Let_def]
  from a 4 5 6 7 8
  have "fst (childIds (fst (after (keydown True cacheA Rejected (press ''s'') loaded))))
       = Str ''3''" by metis
  with a b 1 2 3 4 5 6 9 10 11 12 show ?thesis by blast
qed

section \<open>C3: the active pane and the visibility of the indirect pane\<close>

text \<open>
  C3 fails on the code. With the indirect pane active and on display, the actions of
  the newly selected item arrive; the pass selects the first of them, which takes no
  indirect object, so \<open>shouldShowIndirect\<close> turns false, and \<open>parentIndex\<close> is still 2.
\<close>

theorem active_pane_reset_counterexample:
  "shouldShowIndirect (shown (snd onIndirect)) (fst onIndirect)
   \<and> parentIndex (fst onIndirect) = 2
   \<and> \<not> shouldShowIndirect (shown (snd (pass cacheB onIndirect))) (fst (pass cacheB onIndirect))
   \<and> parentIndex (fst (pass cacheB onIndirect)) \<noteq> 1"
  by code_simp

text \<open>
  C3, as the code has it. No layout effect writes \<open>parentIndex\<close>: a pass leaves the
  active pane as it was, so when \<open>shouldShowIndirect\<close> turns false while the indirect
  pane is active, \<open>parentIndex\<close> stays 2.
\<close>

theorem pass_keeps_active_pane: "parentIndex (fst (pass c x)) = parentIndex (fst x)"
  by (rule pass_parentIndex)

theorem pass_keeps_active_pane_witness:
  "parentIndex (fst (pass cacheB onIndirect)) = parentIndex (fst onIndirect)
   \<and> parentIndex (fst onIndirect) = 2"
proof -
  have "parentIndex (fst onIndirect) = 2" by code_simp
  with pass_keeps_active_pane [of cacheB onIndirect] show ?thesis by simp
qed

text \<open>From there, Tab and Shift+Tab both lead to the action pane.\<close>

lemma tab_from_hidden_indirect:
  assumes "\<not> shouldShowIndirect (shown (snd x)) (fst x)" and "parentIndex (fst x) = 2"
    and "key ev = ''Tab''"
  shows "parentIndex (fst (after (keydown app c resp ev x))) = 1"
proof -
  have "(fst x)\<lparr>parentIndex := 1\<rparr> \<noteq> fst x"
  proof
    assume "(fst x)\<lparr>parentIndex := 1\<rparr> = fst x"
    then have "parentIndex ((fst x)\<lparr>parentIndex := 1\<rparr>) = parentIndex (fst x)" by simp
    with assms(2) show False by simp
  qed
  with assms show ?thesis
    by (simp add: keydown_def onTab_def Let_def consumed_def dispatch_parentIndex wrapAround_def)
qed

section \<open>C4: the keys of the filter\<close>

text \<open>
  C4 at a failing input. The filter is called with the keys \<open>name\<close> and \<open>details\<close>
  (line 88), and a candidate has no property \<open>details\<close>: its second line is
  \<open>item.detail\<close> (line 438). A text that occurs in the detail only finds nothing.
\<close>

theorem detail_is_not_searched:
  "fst (filteredListItems (Some [report], None, None) (''budget'', [], [])) = []
   \<and> fst (filteredListItems (Some [report], None, None) (''rep'', [], [])) = [report]"
  by code_simp

section \<open>C5: selections and the fetched lists\<close>

text \<open>
  C5 fails on the code. The first root item is selected, ArrowRight drills into it and
  its children arrive: an empty list. No effect sets a selection when the list has no
  first item, so the direct selection is still the id of the parent, which is neither
  \<open>null\<close> nor the id of an item of the fetched list.
\<close>

theorem stale_selection_counterexample:
  "selectionValid (shown (snd drilled)) (fst drilled)
   \<and> parentIds (fst drilled) = (Str ''1'', Null, Null)
   \<and> fst (shown (snd (pass cacheC drilled))) = Some []
   \<and> fst (childIds (fst (pass cacheC drilled))) = Str ''1''
   \<and> \<not> selectionValid (shown (snd (pass cacheC drilled))) (fst (pass cacheC drilled))"
  by code_simp

text \<open>
  C5, as the code has it. A pass, a click and a key press leave each pane's selection
  as it was or set it to the id of an item of a list fetched for that pane: the list
  the pane has on display, or a list the cache holds under one of the pane's keys. The
  one exception is ArrowUp or ArrowDown while the filtered list of the active pane is
  empty, which sets the selection of the active pane to \<open>undefined\<close>. Nothing looks at
  a selection again when the list on display changes.
\<close>

theorem selection_kept_or_from_fetched_list:
  "keptOrFetched (\<lambda>i. {}) c x (pass c x)
   \<and> keptOrFetched (\<lambda>i. {}) c x (clickPane c i x)
   \<and> keptOrFetched (\<lambda>i. {}) c x (clickItem c k x)
   \<and> keptOrFetched (undefinedBy ev x) c x (after (keydown app c resp ev x))"
  by (simp add: pass_keptOrFetched keptOrFetched_keydown keptOrFetched_clickPane
      keptOrFetched_clickItem)

theorem selection_kept_or_from_fetched_list_witness:
  "keptOrFetched (\<lambda>i. {}) cacheB movedDown (pass cacheB movedDown)
   \<and> childIds (fst movedDown) = (Str ''2'', Str ''move'', Str ''9'')
   \<and> childIds (fst (pass cacheB movedDown)) = (Str ''2'', Str ''open'', Str ''9'')
   \<and> keptOrFetched (undefinedBy (press ''ArrowUp'') (pass cacheB movedDown)) cacheB
        (pass cacheB movedDown)
        (after (keydown True cacheB Rejected (press ''ArrowUp'') (pass cacheB movedDown)))
   \<and> undefinedBy (press ''ArrowUp'') (pass cacheB movedDown) 0 = {}
   \<and> childIds (fst (after (keydown True cacheB Rejected (press ''ArrowUp'')
        (pass cacheB movedDown)))) = (Str ''1'', Str ''move'', Str ''9'')
   \<and> keptOrFetched (undefinedBy (press ''ArrowDown'') mounted) [] mounted
        (after (keydown True [] Rejected (press ''ArrowDown'') mounted))
   \<and> undefinedBy (press ''ArrowDown'') mounted 0 = {Undefined}
   \<and> childIds (fst (after (keydown True [] Rejected (press ''ArrowDown'') mounted)))
       = (Undefined, Null, Null)"
proof -
  have 1: "childIds (fst movedDown) = (Str ''2'', Str ''move'', Str ''9'')" by code_simp
  have 2: "childIds (fst (pass cacheB movedDown)) = (Str ''2'', Str ''open'', Str ''9'')"
    by code_simp
  have 3: "undefinedBy (press ''ArrowUp'') (pass cacheB movedDown) 0 = {}" by code_simp
  have 4: "childIds (fst (after (keydown True cacheB Rejected (press ''ArrowUp'')
        (pass cacheB movedDown)))) = (Str ''1'', Str ''move'', Str ''9'')" by code_simp
  have 5: "undefinedBy (press ''ArrowDown'') mounted 0 = {Undefined}" by code_simp
  have 6: "childIds (fst (after (keydown True [] Rejected (press ''ArrowDown'') mounted)))
       = (Undefined, Null, Null)" by code_simp
  note a = selection_kept_or_from_fetched_list
    [where c = cacheB and x = movedDown and app = True and resp = Rejected
       and ev = "press ''ArrowUp''" and i = 0 and k = 0]
  note b = selection_kept_or_from_fetched_list
    [where c = cacheB and x = "pass cacheB movedDown" and app = True and resp = Rejected
       and ev = "press ''ArrowUp''" and i = 0 and k = 0]
  note d = selection_kept_or_from_fetched_list
    [where c = "[]" and x = mounted and app = True and resp = Rejected
       and ev = "press ''ArrowDown''" and i = 0 and k = 0]
  from a b d 1 2 3 4 5 6 show ?thesis by blast
qed

section \<open>C6: modifier keys\<close>

text \<open>
  C6 fails on the code. Backspace with Ctrl held is consumed and empties the filter
  text of the active pane, like Backspace alone.
\<close>

theorem modifier_on_backspace_counterexample:
  "ctrlKey ((press ''Backspace'')\<lparr>ctrlKey := True\<rparr>)
   \<and> defaultPrevented (keydown True cacheA Rejected ((press ''Backspace'')\<lparr>ctrlKey := True\<rparr>) typedL)
   \<and> filterTexts (fst typedL) = (''l'', [], [])
   \<and> filterTexts (fst (after (keydown True cacheA Rejected
        ((press ''Backspace'')\<lparr>ctrlKey := True\<rparr>) typedL))) = ([], [], [])"
  by code_simp

text \<open>
  C6, as the code has it. The test for Meta, Ctrl and Alt stands in the default branch
  of the switch only. A key press with one of them held, on a key other than Tab, the
  four arrows, Enter and Backspace, changes no state, is not consumed and sends nothing.
\<close>

theorem modifier_ignored_on_other_keys:
  assumes "metaKey ev \<or> ctrlKey ev \<or> altKey ev"
    and "key ev \<notin> {''Tab'', ''ArrowRight'', ''ArrowLeft'', ''ArrowUp'', ''ArrowDown'',
                    ''Enter'', ''Backspace''}"
  shows "after (keydown app c resp ev x) = x
         \<and> \<not> defaultPrevented (keydown app c resp ev x)
         \<and> sent (keydown app c resp ev x) = []
         \<and> thrown (keydown app c resp ev x) = None"
  using assms by (simp add: keydown_def onOtherKey_def ignored_def)

theorem modifier_ignored_on_other_keys_witness:
  "ctrlKey ((press ''s'')\<lparr>ctrlKey := True\<rparr>)
   \<and> key ((press ''s'')\<lparr>ctrlKey := True\<rparr>)
       \<notin> {''Tab'', ''ArrowRight'', ''ArrowLeft'', ''ArrowUp'', ''ArrowDown'', ''Enter'', ''Backspace''}
   \<and> after (keydown True cacheA Rejected ((press ''s'')\<lparr>ctrlKey := True\<rparr>) loaded) = loaded
   \<and> \<not> defaultPrevented (keydown True cacheA Rejected ((press ''s'')\<lparr>ctrlKey := True\<rparr>) loaded)"
proof -
  have c: "ctrlKey ((press ''s'')\<lparr>ctrlKey := True\<rparr>)" by (simp add: press_def)
  have k: "key ((press ''s'')\<lparr>ctrlKey := True\<rparr>)
       \<notin> {''Tab'', ''ArrowRight'', ''ArrowLeft'', ''ArrowUp'', ''ArrowDown'', ''Enter'', ''Backspace''}"
    by (simp add: press_def)
  from c have m: "metaKey ((press ''s'')\<lparr>ctrlKey := True\<rparr>) \<or> ctrlKey ((press ''s'')\<lparr>ctrlKey := True\<rparr>)
      \<or> altKey ((press ''s'')\<lparr>ctrlKey := True\<rparr>)" by simp
  from modifier_ignored_on_other_keys [OF m k, of True cacheA Rejected loaded] c k
  show ?thesis by simp
qed

section \<open>C7: ArrowRight and ArrowLeft\<close>

text \<open>
  C7 at a failing input: ArrowRight before the first fetch has resolved. The filtered
  list of the active pane is empty, \<open>find\<close> gives \<open>undefined\<close> and reading
  \<open>item.hasChildren\<close> throws a TypeError.
\<close>

theorem arrowRight_without_item_throws:
  "thrown (keydown True [] Rejected (press ''ArrowRight'') mounted) = Some TypeError"
  by code_simp

text \<open>The two other cases of C7 are no-ops.\<close>

lemma arrowRight_on_leaf:
  assumes "nth3 (filteredListItems (shown (snd x)) (filterTexts (fst x))) (parentIndex (fst x))
             = Some items"
    and "find (\<lambda>item. Str (id_c item) = selectedChildId (fst x)) items = Some it"
    and "\<not> hasChildren it"
  shows "keydown app c resp (press ''ArrowRight'') x = consumed x"
  using assms by (simp add: keydown_def press_def onArrowRight_def Let_def)

lemma arrowLeft_at_root:
  assumes "nth3 (parentIds (fst x)) (parentIndex (fst x)) = Some Null"
  shows "keydown app c resp (press ''ArrowLeft'') x = consumed x"
  using assms by (simp add: keydown_def press_def onArrowLeft_def Let_def)

section \<open>C8: the Enter key and the window\<close>

text \<open>
  C8. When Enter is pressed and the execute call fails (\<open>api\<close> throws), the handler
  ends with that exception and the request to hide the window is not issued; a hide
  request is only ever issued after \<open>api\<close> has returned the response.
\<close>

theorem enter_hides_only_on_success:
  assumes "key ev = ''Enter''"
  shows "(api resp = Inl e \<longrightarrow>
            HideWindow \<notin> set (sent (keydown app c resp ev x))
            \<and> thrown (keydown app c resp ev x) = Some e)
         \<and> (HideWindow \<in> set (sent (keydown app c resp ev x)) \<longrightarrow> (\<exists>j. api resp = Inr j))"
  using assms
  by (cases "childIds (fst x)")
    (auto simp add: keydown_def onEnter_def failed_def consumed_def split: sum.splits if_splits)

theorem enter_hides_only_on_success_witness:
  "key (press ''Enter'') = ''Enter''
   \<and> api (Response False (Some [(''error'', Str ''no such action'')]))
       = Inl (ApiError (Str ''no such action'') Undefined)
   \<and> HideWindow \<notin> set (sent (keydown True cacheA
         (Response False (Some [(''error'', Str ''no such action'')])) (press ''Enter'') loaded))
   \<and> thrown (keydown True cacheA
         (Response False (Some [(''error'', Str ''no such action'')])) (press ''Enter'') loaded)
       = Some (ApiError (Str ''no such action'') Undefined)
   \<and> HideWindow \<in> set (sent (keydown True cacheA (Response True (Some []))
         (press ''Enter'') loaded))
   \<and> (\<exists>j. api (Response True (Some [])) = Inr j)"
proof -
  have k: "key (press ''Enter'') = ''Enter''" by (simp add: press_def)
  have a: "api (Response False (Some [(''error'', Str ''no such action'')]))
       = Inl (ApiError (Str ''no such action'') Undefined)"
    by (simp add: api_def field_def)
  have h: "HideWindow \<in> set (sent (keydown True cacheA (Response True (Some []))
         (press ''Enter'') loaded))"
    by code_simp
  show ?thesis
    using k a h
      enter_hides_only_on_success
        [OF k, of "Response False (Some [(''error'', Str ''no such action'')])"
          "ApiError (Str ''no such action'') Undefined" True cacheA loaded]
      enter_hides_only_on_success
        [OF k, of "Response True (Some [])" FetchRejected True cacheA loaded]
    by blast
qed

section \<open>C9: the pass is idempotent\<close>

text \<open>
  C9. The pass is idempotent: run a second time on the navigator and the fetched data
  that the first run has made consistent, it changes nothing; the state after two runs
  is the state after one.
\<close>

theorem pass_idempotent: "pass c (pass c x) = pass c x"
proof -
  obtain st r where p: "pass c x = (st, r)" by (cases "pass c x")
  with pass_rendered [of c x] obtain prev where "r = Some (render c prev st)" by auto
  with p show ?thesis by (simp add: pass_settled)
qed

theorem pass_idempotent_witness:
  "pass cacheB (pass cacheB onIndirect) = pass cacheB onIndirect
   \<and> pass cacheB onIndirect \<noteq> onIndirect"
proof -
  have "pass cacheB onIndirect \<noteq> onIndirect" by code_simp
  with pass_idempotent [of cacheB onIndirect] show ?thesis by simp
qed

end
